theory Spec2Isabelle
  imports Main
begin

section \<open>Catalog records\<close>

text \<open>
  The script (\<^verbatim>\<open>src/assets/script.js\<close>) reads book objects from the JSON replies of the
  catalog. A field that a JSON object does not carry reads as \<^verbatim>\<open>undefined\<close>; calling a
  method on \<^verbatim>\<open>undefined\<close> throws a \<^verbatim>\<open>TypeError\<close>. The two array fields the script
  calls methods on (\<^verbatim>\<open>authors\<close>, \<^verbatim>\<open>subjects\<close>) are therefore optional here: \<open>None\<close> is
  the missing field. The years of an author are a number or \<^verbatim>\<open>null\<close>.
\<close>

datatype error = TypeError | FetchError

record author =
  name :: string
  birth_year :: "int option"
  death_year :: "int option"

record book =
  title :: string
  authors :: "author list option"
  subjects :: "string list option"
  languages :: "string list"
  download_count :: nat

record timeline =
  startYear :: int
  endYear :: int

section \<open>JavaScript primitives used by the script\<close>

text \<open>
  \<^verbatim>\<open>a || b\<close> on a number-or-null \<open>a\<close>: the value is \<open>a\<close> when \<open>a\<close> is truthy, that is
  neither \<^verbatim>\<open>null\<close> nor \<open>0\<close>, and \<open>b\<close> otherwise.
\<close>

fun or_null :: "int option \<Rightarrow> int option \<Rightarrow> int option" where
  "or_null (Some n) b = (if n \<noteq> 0 then Some n else b)"
| "or_null None b = b"

fun or_default :: "int option \<Rightarrow> 'a \<Rightarrow> (int \<Rightarrow> 'a) \<Rightarrow> 'a" where
  "or_default (Some n) d f = (if n \<noteq> 0 then f n else d)"
| "or_default None d f = d"

text \<open>
  \<^verbatim>\<open>xs.filter(p)\<close> with a callback that may throw: the first exception aborts the
  whole call.
\<close>

fun filter_js :: "('a \<Rightarrow> error + bool) \<Rightarrow> 'a list \<Rightarrow> error + 'a list" where
  "filter_js p [] = Inr []"
| "filter_js p (x # xs) =
     (case p x of
        Inl e \<Rightarrow> Inl e
      | Inr keep \<Rightarrow>
          (case filter_js p xs of
             Inl e \<Rightarrow> Inl e
           | Inr ys \<Rightarrow> Inr (if keep then x # ys else ys)))"

section \<open>The three places that compute a year\<close>

text \<open>
  \<^verbatim>\<open>book.authors[0]\<close>: throws when \<^verbatim>\<open>authors\<close> is missing, is \<^verbatim>\<open>undefined\<close> for the
  empty array.
\<close>

definition first_author :: "book \<Rightarrow> error + author option" where
  "first_author b =
     (case authors b of
        None \<Rightarrow> Inl TypeError
      | Some [] \<Rightarrow> Inr None
      | Some (a # _) \<Rightarrow> Inr (Some a))"

text \<open>\<^verbatim>\<open>author ? author.death_year : null\<close> and the same for the birth year.\<close>

definition deathYear_of :: "author option \<Rightarrow> int option" where
  "deathYear_of a = (case a of None \<Rightarrow> None | Some x \<Rightarrow> death_year x)"

definition birthYear_of :: "author option \<Rightarrow> int option" where
  "birthYear_of a = (case a of None \<Rightarrow> None | Some x \<Rightarrow> birth_year x)"

text \<open>The callback of the filter in \<^verbatim>\<open>showPlanetaryPanel\<close> (lines 252 to 258).\<close>

definition panel_year :: "author option \<Rightarrow> int" where
  "panel_year a = or_default (or_null (deathYear_of a) (birthYear_of a)) 1900 (\<lambda>y. y)"

definition panel_filter :: "timeline \<Rightarrow> book \<Rightarrow> error + bool" where
  "panel_filter yr b =
     (case first_author b of
        Inl e \<Rightarrow> Inl e
      | Inr a \<Rightarrow> Inr (panel_year a \<ge> startYear yr \<and> panel_year a \<le> endYear yr))"

text \<open>The callback of the filter in \<^verbatim>\<open>updateTimeline\<close> (lines 378 to 384).\<close>

definition timeline_year :: "author option \<Rightarrow> int" where
  "timeline_year a = or_default (or_null (deathYear_of a) (birthYear_of a)) 1900 (\<lambda>y. y)"

definition timeline_filter :: "timeline \<Rightarrow> book \<Rightarrow> error + bool" where
  "timeline_filter yr b =
     (case first_author b of
        Inl e \<Rightarrow> Inl e
      | Inr a \<Rightarrow> Inr (timeline_year a \<ge> startYear yr \<and> timeline_year a \<le> endYear yr))"

text \<open>
  \<^verbatim>\<open>showTooltip\<close> (lines 321 to 343): the joined author names, or \<^verbatim>\<open>'Unknown'\<close>, the
  year, a number or the text \<^verbatim>\<open>'Unknown'\<close>, and the other fields of the overlay.
  \<^verbatim>\<open>book.subjects.join\<close> throws when the subjects are missing.
\<close>

datatype year_text = Year int | Unknown

fun join :: "string \<Rightarrow> string list \<Rightarrow> string" where
  "join sep [] = []"
| "join sep [x] = x"
| "join sep (x # y # ys) = x @ sep @ join sep (y # ys)"

record tooltip =
  tip_title :: string
  tip_authors :: string
  tip_year :: year_text
  tip_subjects :: string
  tip_languages :: string
  tip_download_count :: nat

definition tooltip_year :: "author option \<Rightarrow> year_text" where
  "tooltip_year a = or_default (or_null (deathYear_of a) (birthYear_of a)) Unknown Year"

definition showTooltip :: "book \<Rightarrow> error + tooltip" where
  "showTooltip b =
     (let names =
        (case authors b of
           None \<Rightarrow> ''Unknown''
         | Some [] \<Rightarrow> ''Unknown''
         | Some as \<Rightarrow> join '', '' (map name as))
      in case first_author b of
           Inl e \<Rightarrow> Inl e
         | Inr a \<Rightarrow>
             (case subjects b of
                None \<Rightarrow> Inl TypeError
              | Some ss \<Rightarrow>
                  Inr \<lparr>tip_title = title b, tip_authors = names, tip_year = tooltip_year a,
                       tip_subjects = join '', '' ss, tip_languages = join '', '' (languages b),
                       tip_download_count = download_count b\<rparr>))"

section \<open>Scene and application state\<close>

text \<open>
  A word entry of \<^verbatim>\<open>wordsData\<close>. Positions are kept as the arguments of the
  floating-point placement: \<open>OnSphere index ntotal\<close> is what \<^verbatim>\<open>positionOnSphere\<close> computes
  from them, \<open>OnOrbit index ntotal centre\<close> what \<^verbatim>\<open>positionPlanet\<close> computes, \<open>Origin\<close> the
  position of a fresh mesh.
\<close>

record wordData =
  word_text :: string
  frequency :: nat
  books :: "book list"

datatype position = Origin | OnSphere nat nat | OnOrbit nat nat position

text \<open>
  A mesh carries \<^verbatim>\<open>userData\<close>, either \<^verbatim>\<open>{ wordData }\<close> (a word) or \<^verbatim>\<open>{ book }\<close> (a
  planet). \<open>mesh_id\<close> stands for the identity of the object: every \<^verbatim>\<open>new THREE.Mesh\<close>
  and \<^verbatim>\<open>new THREE.Group\<close> of the script makes a new object, which the model tells apart
  from all earlier ones by a number taken from the counter \<open>nextId\<close> of the state. The
  numbers themselves mean nothing; two meshes are the same object when they carry the
  same number.
\<close>

datatype userData = WordUD wordData | BookUD book

fun wordData_of :: "userData \<Rightarrow> wordData option" where
  "wordData_of (WordUD w) = Some w"
| "wordData_of (BookUD b) = None"

fun book_of :: "userData \<Rightarrow> book option" where
  "book_of (WordUD w) = None"
| "book_of (BookUD b) = Some b"

record mesh =
  mesh_id :: nat
  userData :: userData
  position :: position
  visible :: bool

text \<open>
  The children of the scene: the two lights, the word group (the object the global
  \<^verbatim>\<open>wordGroup\<close> refers to, whose children are held in the state) and the groups that
  \<^verbatim>\<open>showPlanetaryPanel\<close> adds. Only the latter carry a name.
\<close>

datatype object3d =
  AmbientLight
| DirectionalLight
| WordGroup
| Group nat string "mesh list"

fun object_name :: "object3d \<Rightarrow> string" where
  "object_name (Group i n cs) = n"
| "object_name _ = []"

record state =
  wordsData :: "wordData list"
  wordGroup :: "mesh list option"
  timelineData :: timeline
  scene :: "object3d list"
  nextId :: nat

text \<open>
  \<^verbatim>\<open>scene.getObjectByName(n)\<close> for a non-empty name: the first child of that name. The
  descendants below the children are word meshes and planets, which have no name, and the
  interaction spheres, named \<^verbatim>\<open>'interactionSphere'\<close>; the script asks for
  \<^verbatim>\<open>'planetGroup'\<close> only.
\<close>

definition getObjectByName :: "object3d list \<Rightarrow> string \<Rightarrow> object3d option" where
  "getObjectByName objs n = find (\<lambda>obj. object_name obj = n) objs"

fun children_of :: "state \<Rightarrow> object3d \<Rightarrow> mesh list" where
  "children_of s (Group i n cs) = cs"
| "children_of s WordGroup = (case wordGroup s of None \<Rightarrow> [] | Some ms \<Rightarrow> ms)"
| "children_of s _ = []"

text \<open>
  A handler either returns or throws; what it had written to the state before throwing
  stays written.
\<close>

datatype outcome = Returned state | Threw error state

fun final :: "outcome \<Rightarrow> state" where
  "final (Returned s) = s"
| "final (Threw e s) = s"

fun threw :: "outcome \<Rightarrow> bool" where
  "threw (Returned s) = False"
| "threw (Threw e s) = True"

section \<open>Selection: \<^verbatim>\<open>showPlanetaryPanel\<close>\<close>

definition createPlanetMesh :: "nat \<Rightarrow> book \<Rightarrow> mesh" where
  "createPlanetMesh i b = \<lparr>mesh_id = i, userData = BookUD b, position = Origin, visible = True\<rparr>"

definition positionPlanet :: "mesh \<Rightarrow> nat \<Rightarrow> nat \<Rightarrow> position \<Rightarrow> mesh" where
  "positionPlanet planet index ntotal centerPosition =
     planet\<lparr>position := OnOrbit index ntotal centerPosition\<rparr>"

text \<open>The \<^verbatim>\<open>books.forEach\<close> of lines 260 to 264, from index \<open>index\<close> and identity \<open>i\<close> on.\<close>

fun planets :: "book list \<Rightarrow> nat \<Rightarrow> nat \<Rightarrow> position \<Rightarrow> nat \<Rightarrow> mesh list" where
  "planets [] index ntotal c i = []"
| "planets (b # bs) index ntotal c i =
     positionPlanet (createPlanetMesh i b) index ntotal c # planets bs (Suc index) ntotal c (Suc i)"

definition showPlanetaryPanel :: "wordData option \<Rightarrow> position \<Rightarrow> state \<Rightarrow> outcome" where
  "showPlanetaryPanel wd pos s =
     (let s1 = (case getObjectByName (scene s) ''planetGroup'' of
                  Some existingPlanets \<Rightarrow> s\<lparr>scene := remove1 existingPlanets (scene s)\<rparr>
                | None \<Rightarrow> s);
          gid = nextId s1;
          s2 = s1\<lparr>nextId := Suc gid\<rparr>
      in case wd of
           None \<Rightarrow> Threw TypeError s2
         | Some w \<Rightarrow>
             (case filter_js (panel_filter (timelineData s2)) (books w) of
                Inl e \<Rightarrow> Threw e s2
              | Inr bs \<Rightarrow>
                  Returned (s2\<lparr>scene := scene s2 @
                                  [Group gid ''planetGroup'' (planets bs 0 (length bs) pos (Suc gid))],
                               nextId := Suc gid + length bs\<rparr>)))"

text \<open>
  \<^verbatim>\<open>onClick\<close>: the ray cast is the renderer's; \<open>hit\<close> is the index of the word mesh whose
  interaction sphere it met first, if any.
\<close>

definition onClick :: "nat option \<Rightarrow> state \<Rightarrow> outcome" where
  "onClick hit s =
     (case wordGroup s of
        None \<Rightarrow> Threw TypeError s
      | Some ms \<Rightarrow>
          (case hit of
             None \<Rightarrow> Returned s
           | Some i \<Rightarrow>
               if i < length ms then
                 (case wordData_of (userData (ms ! i)) of
                    None \<Rightarrow> Returned s
                  | Some w \<Rightarrow> showPlanetaryPanel (Some w) (position (ms ! i)) s)
               else Returned s))"

section \<open>Timeline: \<^verbatim>\<open>updateTimeline\<close>\<close>

text \<open>
  The \<^verbatim>\<open>wordGroup.children.forEach\<close> of lines 376 to 386: the meshes before the one
  whose callback throws have their visibility written.
\<close>

fun setVisible :: "timeline \<Rightarrow> mesh list \<Rightarrow> error option \<times> mesh list" where
  "setVisible yr [] = (None, [])"
| "setVisible yr (m # ms) =
     (case wordData_of (userData m) of
        None \<Rightarrow> (Some TypeError, m # ms)
      | Some w \<Rightarrow>
          (case filter_js (timeline_filter yr) (books w) of
             Inl e \<Rightarrow> (Some e, m # ms)
           | Inr relevantBooks \<Rightarrow>
               (case setVisible yr ms of
                  (r, ms') \<Rightarrow> (r, m\<lparr>visible := length relevantBooks > 0\<rparr> # ms'))))"

definition swapYears :: "state \<Rightarrow> state" where
  "swapYears s =
     (if startYear (timelineData s) > endYear (timelineData s)
      then s\<lparr>timelineData :=
               \<lparr>startYear = endYear (timelineData s), endYear = startYear (timelineData s)\<rparr>\<rparr>
      else s)"

definition updatePanel :: "state \<Rightarrow> outcome" where
  "updatePanel s =
     (case getObjectByName (scene s) ''planetGroup'' of
        None \<Rightarrow> Returned s
      | Some planetGroup \<Rightarrow>
          (case children_of s planetGroup of
             [] \<Rightarrow> Threw TypeError s
           | wordMesh # _ \<Rightarrow>
               showPlanetaryPanel (wordData_of (userData wordMesh)) (position wordMesh) s))"

definition updateTimeline :: "state \<Rightarrow> outcome" where
  "updateTimeline s =
     (let s1 = swapYears s
      in case wordGroup s1 of
           None \<Rightarrow> Threw TypeError s1
         | Some ms \<Rightarrow>
             (case setVisible (timelineData s1) ms of
                (Some e, ms') \<Rightarrow> Threw e (s1\<lparr>wordGroup := Some ms'\<rparr>)
              | (None, ms') \<Rightarrow> updatePanel (s1\<lparr>wordGroup := Some ms'\<rparr>)))"

text \<open>
  The events of the page: a click, and a move of one of the two sliders, which assigns the
  bound and then calls \<^verbatim>\<open>updateTimeline\<close>. An exception ends the handler, not the page.
\<close>

datatype event = Click "nat option" | SetStartYear int | SetEndYear int

fun handle :: "event \<Rightarrow> state \<Rightarrow> outcome" where
  "handle (Click hit) s = onClick hit s"
| "handle (SetStartYear v) s = updateTimeline (s\<lparr>timelineData := (timelineData s)\<lparr>startYear := v\<rparr>\<rparr>)"
| "handle (SetEndYear v) s = updateTimeline (s\<lparr>timelineData := (timelineData s)\<lparr>endYear := v\<rparr>\<rparr>)"

fun run :: "event list \<Rightarrow> state \<Rightarrow> state" where
  "run [] s = s"
| "run (e # es) s = run es (final (handle e s))"

section \<open>Loading: the fetch loop of \<^verbatim>\<open>loadData\<close>\<close>

text \<open>
  A reply of the catalog: the books of the page and the cursor \<^verbatim>\<open>next\<close>, a URL or
  \<^verbatim>\<open>null\<close>. The remote side is a parameter: \<open>remote k url\<close> is what the \<open>k\<close>-th request
  (counted from 0) gets when it asks for \<open>url\<close>, an error when \<^verbatim>\<open>fetch\<close> or
  \<^verbatim>\<open>response.json()\<close> rejects.
\<close>

record page =
  results :: "book list"
  next_cursor :: "string option"

text \<open>
  The loop of lines 91 to 97. A string is truthy when it is not empty. Beside the outcome
  the function returns the URLs it has passed to \<^verbatim>\<open>fetch\<close>, in order.
\<close>

function fetchPages ::
  "(nat \<Rightarrow> string \<Rightarrow> error + page) \<Rightarrow> book list \<Rightarrow> string option \<Rightarrow> nat
     \<Rightarrow> string list \<times> (error + book list)" where
  "fetchPages remote allBooks nextPage pageCount =
     (case nextPage of
        None \<Rightarrow> ([], Inr allBooks)
      | Some url \<Rightarrow>
          if url \<noteq> [] \<and> pageCount < 3 then
            (case remote pageCount url of
               Inl e \<Rightarrow> ([url], Inl e)
             | Inr data \<Rightarrow>
                 (case fetchPages remote (allBooks @ results data) (next_cursor data) (Suc pageCount) of
                    (requested, r) \<Rightarrow> (url # requested, r)))
          else ([], Inr allBooks))"
  by pat_completeness auto
termination
  by (relation "measure (\<lambda>(remote, allBooks, nextPage, pageCount). 3 - pageCount)") auto

declare fetchPages.simps [simp del]

definition first_url :: string where
  "first_url = ''https://gutendex.com/books/''"

section \<open>Loading: subjects to words\<close>

text \<open>\<^verbatim>\<open>subject.split(' ')\<close>: the pieces between the separators, empty pieces included.\<close>

fun split_js :: "char \<Rightarrow> string \<Rightarrow> string list" where
  "split_js sep [] = [[]]"
| "split_js sep (c # cs) =
     (if c = sep then [] # split_js sep cs
      else (case split_js sep cs of
              [] \<Rightarrow> [[c]]
            | p # ps \<Rightarrow> (c # p) # ps))"

text \<open>
  \<^verbatim>\<open>word.replace(/[^a-zA-Z]/g, '').toLowerCase()\<close>: the letters a to z and A to Z are
  kept, and what is kept is turned to lower case.
\<close>

definition is_letter :: "char \<Rightarrow> bool" where
  "is_letter c =
     (let n = (of_char c :: nat) in (97 \<le> n \<and> n \<le> 122) \<or> (65 \<le> n \<and> n \<le> 90))"

definition lower_char :: "char \<Rightarrow> char" where
  "lower_char c =
     (let n = (of_char c :: nat) in if 65 \<le> n \<and> n \<le> 90 then char_of (n + 32) else c)"

definition normalize_word :: "string \<Rightarrow> string" where
  "normalize_word word = map lower_char (filter is_letter word)"

text \<open>
  \<^verbatim>\<open>wordMap\<close> is a JavaScript \<^verbatim>\<open>Map\<close>, which keeps its keys in the order of their first
  insertion: an association list. \<open>map_set\<close> is \<^verbatim>\<open>wordMap.set\<close>; \<open>map_modify k f\<close> is an
  assignment to a field of \<^verbatim>\<open>wordMap.get(k)\<close>, for a key that is there.
\<close>

record mapEntry =
  count :: nat
  entry_books :: "book list"

type_synonym wordMap = "(string \<times> mapEntry) list"

definition map_has :: "wordMap \<Rightarrow> string \<Rightarrow> bool" where
  "map_has m k = (map_of m k \<noteq> None)"

fun map_set :: "string \<Rightarrow> mapEntry \<Rightarrow> wordMap \<Rightarrow> wordMap" where
  "map_set k v [] = [(k, v)]"
| "map_set k v ((k', v') # m) = (if k' = k then (k, v) # m else (k', v') # map_set k v m)"

fun map_modify :: "string \<Rightarrow> (mapEntry \<Rightarrow> mapEntry) \<Rightarrow> wordMap \<Rightarrow> wordMap" where
  "map_modify k f [] = []"
| "map_modify k f ((k', v') # m) = (if k' = k then (k', f v') # m else (k', v') # map_modify k f m)"

text \<open>Lines 108 to 112, for a word that is not empty.\<close>

definition add_word :: "book \<Rightarrow> string \<Rightarrow> wordMap \<Rightarrow> wordMap" where
  "add_word book word m =
     (let m1 = (if \<not> map_has m word then map_set word \<lparr>count = 0, entry_books = []\<rparr> m else m);
          m2 = map_modify word (\<lambda>e. e\<lparr>count := count e + 1\<rparr>) m1
      in map_modify word (\<lambda>e. e\<lparr>entry_books := entry_books e @ [book]\<rparr>) m2)"

text \<open>The three nested \<^verbatim>\<open>forEach\<close> of lines 101 to 116, innermost first.\<close>

fun index_words :: "book \<Rightarrow> string list \<Rightarrow> wordMap \<Rightarrow> wordMap" where
  "index_words book [] m = m"
| "index_words book (word # ws) m =
     index_words book ws
       (let w = normalize_word word in if w \<noteq> [] then add_word book w m else m)"

fun index_subjects :: "book \<Rightarrow> string list \<Rightarrow> wordMap \<Rightarrow> wordMap" where
  "index_subjects book [] m = m"
| "index_subjects book (subject # ss) m =
     index_subjects book ss (index_words book (split_js CHR '' '' subject) m)"

fun index_books :: "book list \<Rightarrow> wordMap \<Rightarrow> error + wordMap" where
  "index_books [] m = Inr m"
| "index_books (book # bs) m =
     (case subjects book of
        None \<Rightarrow> Inl TypeError
      | Some ss \<Rightarrow> index_books bs (index_subjects book ss m))"

text \<open>Lines 118 to 122: the entries of the map, in its order.\<close>

definition toWordsData :: "wordMap \<Rightarrow> wordData list" where
  "toWordsData m =
     map (\<lambda>(t, d). \<lparr>word_text = t, frequency = count d, books = entry_books d\<rparr>) m"

section \<open>Loading: the word cloud\<close>

definition createWordMesh :: "nat \<Rightarrow> wordData \<Rightarrow> mesh" where
  "createWordMesh i w = \<lparr>mesh_id = i, userData = WordUD w, position = Origin, visible = True\<rparr>"

definition positionOnSphere :: "mesh \<Rightarrow> nat \<Rightarrow> nat \<Rightarrow> mesh" where
  "positionOnSphere m index ntotal = m\<lparr>position := OnSphere index ntotal\<rparr>"

text \<open>
  The \<^verbatim>\<open>wordsData.forEach\<close> of lines 139 to 143. A word mesh takes two identities, its
  own and that of its interaction sphere.
\<close>

fun wordMeshes :: "wordData list \<Rightarrow> nat \<Rightarrow> nat \<Rightarrow> nat \<Rightarrow> mesh list" where
  "wordMeshes [] index ntotal i = []"
| "wordMeshes (w # ws) index ntotal i =
     positionOnSphere (createWordMesh i w) index ntotal # wordMeshes ws (Suc index) ntotal (i + 2)"

definition createWordCloud :: "state \<Rightarrow> state" where
  "createWordCloud s =
     s\<lparr>wordGroup := Some (wordMeshes (wordsData s) 0 (length (wordsData s)) (Suc (nextId s))),
       scene := scene s @ [WordGroup],
       nextId := Suc (nextId s) + 2 * length (wordsData s)\<rparr>"

text \<open>
  The state when the script has run its top level: the two lights are in the scene,
  nothing is loaded. \<^verbatim>\<open>loadData\<close> catches every exception of its body and logs it; the
  state then stays as it was.
\<close>

definition init :: state where
  "init = \<lparr>wordsData = [], wordGroup = None,
           timelineData = \<lparr>startYear = 1800, endYear = 2023\<rparr>,
           scene = [AmbientLight, DirectionalLight], nextId = 0\<rparr>"

definition loadData :: "(nat \<Rightarrow> string \<Rightarrow> error + page) \<Rightarrow> state \<Rightarrow> state" where
  "loadData remote s =
     (case snd (fetchPages remote [] (Some first_url) 0) of
        Inl e \<Rightarrow> s
      | Inr allBooks \<Rightarrow>
          (case index_books allBooks [] of
             Inl e \<Rightarrow> s
           | Inr wordMap \<Rightarrow> createWordCloud (s\<lparr>wordsData := toWordsData wordMap\<rparr>)))"

section \<open>Notions used to state the properties\<close>

subsection \<open>The selection in the scene\<close>

text \<open>
  The planet groups of the scene, the other children, and the satellites: the meshes of
  the planet groups.
\<close>

definition planetGroups :: "object3d list \<Rightarrow> object3d list" where
  "planetGroups objs = filter (\<lambda>obj. object_name obj = ''planetGroup'') objs"

definition others :: "object3d list \<Rightarrow> object3d list" where
  "others objs = filter (\<lambda>obj. object_name obj \<noteq> ''planetGroup'') objs"

fun group_children :: "object3d \<Rightarrow> mesh list" where
  "group_children (Group i n cs) = cs"
| "group_children _ = []"

definition satellites :: "state \<Rightarrow> mesh list" where
  "satellites s = concat (map group_children (planetGroups (scene s)))"

definition word_count :: "state \<Rightarrow> nat" where
  "word_count s = (case wordGroup s of None \<Rightarrow> 0 | Some ms \<Rightarrow> length ms)"

text \<open>
  Every group among the children of the scene, whatever its name; the meshes of the whole
  scene, those of the word group included; the book meshes among them; and the group a call
  of \<^verbatim>\<open>showPlanetaryPanel\<close> adds, none when it throws.
\<close>

definition is_group :: "object3d \<Rightarrow> bool" where
  "is_group obj = (case obj of Group i n cs \<Rightarrow> True | _ \<Rightarrow> False)"

definition scene_groups :: "object3d list \<Rightarrow> object3d list" where
  "scene_groups objs = filter is_group objs"

definition word_meshes :: "state \<Rightarrow> mesh list" where
  "word_meshes s = (case wordGroup s of None \<Rightarrow> [] | Some ms \<Rightarrow> ms)"

definition scene_meshes :: "state \<Rightarrow> mesh list" where
  "scene_meshes s = concat (map (children_of s) (scene s))"

definition new_group :: "wordData option \<Rightarrow> position \<Rightarrow> state \<Rightarrow> object3d list" where
  "new_group wd pos s =
     (case wd of
        None \<Rightarrow> []
      | Some w \<Rightarrow>
          (case filter_js (panel_filter (timelineData s)) (books w) of
             Inl e \<Rightarrow> []
           | Inr bs \<Rightarrow>
               [Group (nextId s) ''planetGroup'' (planets bs 0 (length bs) pos (Suc (nextId s)))]))"

text \<open>The planets a call of \<^verbatim>\<open>showPlanetaryPanel\<close> builds, none when it throws.\<close>

definition new_planets :: "wordData option \<Rightarrow> position \<Rightarrow> state \<Rightarrow> mesh list" where
  "new_planets wd pos s =
     (case wd of
        None \<Rightarrow> []
      | Some w \<Rightarrow>
          (case filter_js (panel_filter (timelineData s)) (books w) of
             Inl e \<Rightarrow> []
           | Inr bs \<Rightarrow> planets bs 0 (length bs) pos (Suc (nextId s))))"

text \<open>
  What holds in every state the page reaches: at most one planet group, whose meshes are
  planets and older than the counter, and a word group of word meshes.
\<close>

definition is_planet :: "mesh \<Rightarrow> bool" where
  "is_planet m = (wordData_of (userData m) = None)"

definition is_word :: "mesh \<Rightarrow> bool" where
  "is_word m = (wordData_of (userData m) \<noteq> None)"

definition one_group :: "state \<Rightarrow> bool" where
  "one_group s = (length (planetGroups (scene s)) \<le> 1)"

definition fresh_ids :: "state \<Rightarrow> bool" where
  "fresh_ids s = list_all (\<lambda>m. mesh_id m < nextId s) (satellites s)"

definition planets_only :: "state \<Rightarrow> bool" where
  "planets_only s = list_all is_planet (satellites s)"

definition words_only :: "state \<Rightarrow> bool" where
  "words_only s = (case wordGroup s of None \<Rightarrow> True | Some ms \<Rightarrow> list_all is_word ms)"

definition scene_inv :: "state \<Rightarrow> bool" where
  "scene_inv s = (one_group s \<and> fresh_ids s \<and> planets_only s \<and> words_only s)"

text \<open>
  What holds of the meshes in every state the page reaches: every group of the scene is
  named \<^verbatim>\<open>'planetGroup'\<close>, the word meshes are older than the counter, and no word mesh
  is a satellite.
\<close>

definition named_groups :: "state \<Rightarrow> bool" where
  "named_groups s = list_all (\<lambda>obj. \<not> is_group obj \<or> object_name obj = ''planetGroup'') (scene s)"

definition old_words :: "state \<Rightarrow> bool" where
  "old_words s = list_all (\<lambda>m. mesh_id m < nextId s) (word_meshes s)"

definition apart :: "state \<Rightarrow> bool" where
  "apart s = (mesh_id ` set (satellites s) \<inter> mesh_id ` set (word_meshes s) = {})"

definition mesh_inv :: "state \<Rightarrow> bool" where
  "mesh_inv s = (named_groups s \<and> old_words s \<and> apart s)"


definition book_meshes :: "state \<Rightarrow> mesh list" where
  "book_meshes s = filter is_planet (scene_meshes s)"

subsection \<open>Years\<close>

text \<open>
  The effective year in the words of the specification: the death year of the first
  author if present, else the birth year if present, else 1900.
\<close>

definition spec_effective_year :: "book \<Rightarrow> int" where
  "spec_effective_year b =
     (case authors b of
        Some (a # _) \<Rightarrow>
          (case death_year a of
             Some d \<Rightarrow> d
           | None \<Rightarrow> (case birth_year a of Some y \<Rightarrow> y | None \<Rightarrow> 1900))
      | _ \<Rightarrow> 1900)"

definition spec_in_range :: "timeline \<Rightarrow> book \<Rightarrow> bool" where
  "spec_in_range yr b = (startYear yr \<le> spec_effective_year b \<and> spec_effective_year b \<le> endYear yr)"

text \<open>
  The books on which \<^verbatim>\<open>||\<close> and ``if present'' agree: the authors are there, and the
  year that decides is not the number 0.
\<close>

definition plain_book :: "book \<Rightarrow> bool" where
  "plain_book b =
     (case authors b of
        None \<Rightarrow> False
      | Some [] \<Rightarrow> True
      | Some (a # _) \<Rightarrow>
          (case death_year a of
             Some d \<Rightarrow> d \<noteq> 0
           | None \<Rightarrow> birth_year a \<noteq> Some 0))"

text \<open>A book, a word entry and a mesh with every author but the first taken away.\<close>

definition first_only :: "book \<Rightarrow> book" where
  "first_only b = b\<lparr>authors := map_option (take 1) (authors b)\<rparr>"

definition first_only_word :: "wordData \<Rightarrow> wordData" where
  "first_only_word w = w\<lparr>books := map first_only (books w)\<rparr>"

definition first_only_mesh :: "mesh \<Rightarrow> mesh" where
  "first_only_mesh m =
     m\<lparr>userData := (case userData m of
                       WordUD w \<Rightarrow> WordUD (first_only_word w)
                     | BookUD b \<Rightarrow> BookUD (first_only b))\<rparr>"

subsection \<open>The index\<close>

text \<open>
  The tokens of a subject as the script makes them: the pieces between spaces, reduced to
  their letters in lower case, the empty ones left out. The occurrences of a list of
  books: every token of every subject of every book, in order, with its book.
\<close>

definition is_lower :: "char \<Rightarrow> bool" where
  "is_lower c = (97 \<le> (of_char c :: nat) \<and> (of_char c :: nat) \<le> 122)"

definition tokens :: "string \<Rightarrow> string list" where
  "tokens subject = filter (\<lambda>w. w \<noteq> []) (map normalize_word (split_js CHR '' '' subject))"

definition subjects_of :: "book \<Rightarrow> string list" where
  "subjects_of b = (case subjects b of None \<Rightarrow> [] | Some ss \<Rightarrow> ss)"

definition occurrences :: "book list \<Rightarrow> (string \<times> book) list" where
  "occurrences bs =
     concat (map (\<lambda>b. map (\<lambda>w. (w, b)) (concat (map tokens (subjects_of b)))) bs)"

definition books_of_word :: "string \<Rightarrow> (string \<times> book) list \<Rightarrow> book list" where
  "books_of_word w occ = map snd (filter (\<lambda>p. fst p = w) occ)"

fun add_all :: "(string \<times> book) list \<Rightarrow> wordMap \<Rightarrow> wordMap" where
  "add_all [] m = m"
| "add_all ((w, b) # occ) m = add_all occ (add_word b w m)"

text \<open>The entry of a word, the one \<^verbatim>\<open>wordMap.set\<close> starts with when there is none.\<close>

definition entry_of :: "wordMap \<Rightarrow> string \<Rightarrow> mapEntry" where
  "entry_of m w = (case map_of m w of None \<Rightarrow> \<lparr>count = 0, entry_books = []\<rparr> | Some e \<Rightarrow> e)"

definition tally_ok :: "wordMap \<Rightarrow> bool" where
  "tally_ok m = list_all (\<lambda>p. count (snd p) = length (entry_books (snd p))) m"

text \<open>
  The tokens in the words of the specification: the subject is split on whitespace (space,
  tab, line feed, vertical tab, form feed, carriage return).
\<close>

definition is_whitespace :: "char \<Rightarrow> bool" where
  "is_whitespace c = (let n = (of_char c :: nat) in (9 \<le> n \<and> n \<le> 13) \<or> n = 32)"

fun split_whitespace :: "string \<Rightarrow> string list" where
  "split_whitespace [] = [[]]"
| "split_whitespace (c # cs) =
     (if is_whitespace c then [] # split_whitespace cs
      else (case split_whitespace cs of
              [] \<Rightarrow> [[c]]
            | p # ps \<Rightarrow> (c # p) # ps))"

definition spec_tokens :: "string \<Rightarrow> string list" where
  "spec_tokens subject =
     filter (\<lambda>w. w \<noteq> []) (map normalize_word (split_whitespace subject))"

subsection \<open>Example data\<close>

definition thoreau :: author where
  "thoreau = \<lparr>name = ''Thoreau, Henry David'', birth_year = Some 1817, death_year = Some 1862\<rparr>"

definition walden :: book where
  "walden = \<lparr>title = ''Walden'', authors = Some [thoreau],
     subjects = Some [''Natural history'', ''History -- Essays''],
     languages = [''en''], download_count = 10\<rparr>"

definition melville :: author where
  "melville = \<lparr>name = ''Melville, Herman'', birth_year = Some 1819, death_year = Some 1891\<rparr>"

definition moby_dick :: book where
  "moby_dick = \<lparr>title = ''Moby Dick'', authors = Some [melville],
     subjects = Some [''Whaling -- Fiction''], languages = [''en''], download_count = 20\<rparr>"

text \<open>A book whose only author has the death year 0.\<close>

definition annals :: book where
  "annals = \<lparr>title = ''Annals'',
     authors = Some [\<lparr>name = ''Anonymous'', birth_year = Some 1850, death_year = Some 0\<rparr>],
     subjects = Some [''Chronicles''], languages = [''la''], download_count = 3\<rparr>"

text \<open>A book object without the field \<^verbatim>\<open>subjects\<close>, and one whose array is empty.\<close>

definition untagged :: book where
  "untagged = \<lparr>title = ''Untagged'', authors = Some [], subjects = None,
     languages = [''en''], download_count = 0\<rparr>"

definition unclassified :: book where
  "unclassified = \<lparr>title = ''Unclassified'', authors = Some [], subjects = Some [],
     languages = [''en''], download_count = 0\<rparr>"

text \<open>A subject with a tab between its two words.\<close>

definition tab_subject :: string where
  "tab_subject = ''Science'' @ [CHR 0x09] @ ''fiction''"

text \<open>
  Catalogs: one of a single page, one of two pages, one that offers a further page with
  every reply, one whose page holds the book without subjects, one whose page holds the
  book of the year 0.
\<close>

definition page2_url :: string where
  "page2_url = ''https://gutendex.com/books/?page=2''"

definition one_page :: "nat \<Rightarrow> string \<Rightarrow> error + page" where
  "one_page k url = Inr \<lparr>results = [walden, moby_dick], next_cursor = None\<rparr>"

definition two_pages :: "nat \<Rightarrow> string \<Rightarrow> error + page" where
  "two_pages k url =
     (if url = first_url then Inr \<lparr>results = [walden], next_cursor = Some page2_url\<rparr>
      else if url = page2_url then Inr \<lparr>results = [moby_dick], next_cursor = None\<rparr>
      else Inl FetchError)"

definition endless_pages :: "nat \<Rightarrow> string \<Rightarrow> error + page" where
  "endless_pages k url = Inr \<lparr>results = [walden], next_cursor = Some page2_url\<rparr>"

definition untagged_page :: "nat \<Rightarrow> string \<Rightarrow> error + page" where
  "untagged_page k url = Inr \<lparr>results = [walden, untagged, moby_dick], next_cursor = None\<rparr>"

definition year0_page :: "nat \<Rightarrow> string \<Rightarrow> error + page" where
  "year0_page k url = Inr \<lparr>results = [annals], next_cursor = None\<rparr>"

section \<open>The year range after a slider moves\<close>

lemma timelineData_showPlanetaryPanel:
  "timelineData (final (showPlanetaryPanel wd pos s)) = timelineData s"
  by (simp add: showPlanetaryPanel_def Let_def split: option.splits sum.splits)

lemma timelineData_updatePanel: "timelineData (final (updatePanel s)) = timelineData s"
  by (simp add: updatePanel_def timelineData_showPlanetaryPanel split: option.splits list.splits)

lemma timelineData_updateTimeline:
  "timelineData (final (updateTimeline s)) = timelineData (swapYears s)"
  by (simp add: updateTimeline_def Let_def timelineData_updatePanel split: option.splits prod.splits)

text \<open>
  Claim C3. Whatever the two bounds are when \<^verbatim>\<open>updateTimeline\<close> starts, and whether it
  returns or throws later on, the state it leaves has \<open>startYear \<le> endYear\<close>: bounds in
  the wrong order are exchanged, bounds in the right order are kept, and no assignment is
  undone. Moving the start slider to 2000 while the end is 1900 leaves the range 1900 to
  2000.
\<close>

theorem updateTimeline_orders_years:
  "startYear (timelineData (final (updateTimeline s)))
     \<le> endYear (timelineData (final (updateTimeline s)))
   \<and> timelineData (final (updateTimeline s)) =
       (if startYear (timelineData s) > endYear (timelineData s)
        then \<lparr>startYear = endYear (timelineData s), endYear = startYear (timelineData s)\<rparr>
        else timelineData s)
   \<and> timelineData (final (handle (SetStartYear 2000)
         (s\<lparr>timelineData := \<lparr>startYear = 1800, endYear = 1900\<rparr>\<rparr>)))
       = \<lparr>startYear = 1900, endYear = 2000\<rparr>"
  by (simp add: timelineData_updateTimeline swapYears_def)

section \<open>What a selection leaves in the scene\<close>

lemma find_holds: "find P xs = Some g \<Longrightarrow> P g \<and> g \<in> set xs"
  by (induction xs) (auto split: if_splits)

lemma find_None_filter: "find P xs = None \<Longrightarrow> filter P xs = []"
  by (induction xs) (auto split: if_splits)

lemma filter_remove1_find:
  "find P xs = Some g \<Longrightarrow> filter P (remove1 g xs) = tl (filter P xs)"
proof (induction xs)
  case Nil
  then show ?case by simp
next
  case (Cons x xs)
  show ?case
  proof (cases "P x")
    case True
    with Cons.prems show ?thesis by simp
  next
    case False
    with Cons.prems have "find P xs = Some g" by simp
    moreover from this have "P g" by (auto simp: find_Some_iff)
    ultimately show ?thesis using False Cons.IH by auto
  qed
qed

lemma remove1_others:
  assumes "length (filter P xs) \<le> 1"
  shows "(case find P xs of Some g \<Rightarrow> remove1 g xs | None \<Rightarrow> xs) = filter (\<lambda>x. \<not> P x) xs"
  using assms
proof (induction xs)
  case Nil
  then show ?case by simp
next
  case (Cons x xs)
  show ?case
  proof (cases "P x")
    case True
    with Cons.prems have "filter P xs = []" by simp
    then have "filter (\<lambda>x. \<not> P x) xs = xs"
      by (simp add: filter_empty_conv)
    with True show ?thesis by simp
  next
    case False
    with Cons.prems have "length (filter P xs) \<le> 1" by simp
    from Cons.IH[OF this] False show ?thesis
      by (auto split: option.splits dest: find_holds)
  qed
qed

lemma find_name_Group:
  assumes "getObjectByName objs ''planetGroup'' = Some g"
  shows "\<exists>i cs. g = Group i ''planetGroup'' cs \<and> g \<in> set objs"
proof -
  from assms have "object_name g = ''planetGroup''" and "g \<in> set objs"
    using find_holds[of "\<lambda>obj. object_name obj = ''planetGroup''" objs g]
    by (simp_all add: getObjectByName_def)
  then show ?thesis by (cases g) auto
qed

lemma showPlanetaryPanel_None:
  "threw (showPlanetaryPanel None pos s)"
  by (simp add: showPlanetaryPanel_def Let_def)

lemma length_planets: "length (planets bs index n c i) = length bs"
  by (induction bs index n c i rule: planets.induct) simp_all

lemma planets_is_planet: "list_all is_planet (planets bs index n c i)"
  by (induction bs index n c i rule: planets.induct)
     (simp_all add: is_planet_def createPlanetMesh_def positionPlanet_def)

lemma planets_ids: "map mesh_id (planets bs index n c i) = [i ..< i + length bs]"
  by (induction bs index n c i rule: planets.induct)
     (simp_all add: createPlanetMesh_def positionPlanet_def upt_rec)

lemma planets_id_set: "mesh_id ` set (planets bs index n c i) = {i ..< i + length bs}"
proof -
  have "set (map mesh_id (planets bs index n c i)) = set [i ..< i + length bs]"
    by (simp only: planets_ids)
  then show ?thesis by (simp only: set_map set_upt)
qed

lemma case_find_others:
  assumes "one_group s"
  shows "(case getObjectByName (scene s) ''planetGroup'' of
           Some g \<Rightarrow> remove1 g (scene s) | None \<Rightarrow> scene s) = others (scene s)"
  using remove1_others[of "\<lambda>obj. object_name obj = ''planetGroup''" "scene s"] assms
  by (simp add: one_group_def planetGroups_def getObjectByName_def others_def)

lemma planetGroups_others: "planetGroups (others objs) = []"
  by (induction objs) (auto simp: planetGroups_def others_def)

lemma planetGroups_append: "planetGroups (xs @ ys) = planetGroups xs @ planetGroups ys"
  by (simp add: planetGroups_def)

lemma satellites_showPlanetaryPanel:
  assumes "one_group s"
  shows "satellites (final (showPlanetaryPanel wd pos s)) = new_planets wd pos s"
proof -
  let ?o = "others (scene s)"
  have sc: "scene (case getObjectByName (scene s) ''planetGroup'' of
              Some g \<Rightarrow> s\<lparr>scene := remove1 g (scene s)\<rparr> | None \<Rightarrow> s) = ?o"
    using case_find_others[OF assms] by (simp split: option.splits)
  show ?thesis
  proof (cases wd)
    case None
    then show ?thesis
      using sc by (simp add: showPlanetaryPanel_def Let_def satellites_def new_planets_def
          planetGroups_others)
  next
    case (Some w)
    show ?thesis
    proof (cases "filter_js (panel_filter (timelineData s)) (books w)")
      case (Inl e)
      have tl: "timelineData (case getObjectByName (scene s) ''planetGroup'' of
              Some g \<Rightarrow> s\<lparr>scene := remove1 g (scene s)\<rparr> | None \<Rightarrow> s) = timelineData s"
        by (simp split: option.splits)
      show ?thesis
        using sc Some Inl tl
        by (simp add: showPlanetaryPanel_def Let_def satellites_def new_planets_def planetGroups_others)
    next
      case (Inr bs)
      have tl: "timelineData (case getObjectByName (scene s) ''planetGroup'' of
              Some g \<Rightarrow> s\<lparr>scene := remove1 g (scene s)\<rparr> | None \<Rightarrow> s) = timelineData s"
        by (simp split: option.splits)
      have ni: "nextId (case getObjectByName (scene s) ''planetGroup'' of
              Some g \<Rightarrow> s\<lparr>scene := remove1 g (scene s)\<rparr> | None \<Rightarrow> s) = nextId s"
        by (simp split: option.splits)
      show ?thesis
        using sc Some Inr tl ni
        by (simp add: showPlanetaryPanel_def Let_def satellites_def new_planets_def
            planetGroups_append planetGroups_others)
          (simp add: planetGroups_def)
    qed
  qed
qed

lemma nextId_showPlanetaryPanel:
  "nextId (final (showPlanetaryPanel wd pos s)) = Suc (nextId s) + length (new_planets wd pos s)"
  by (simp add: showPlanetaryPanel_def Let_def new_planets_def length_planets
      split: option.splits sum.splits)

lemma wordGroup_showPlanetaryPanel: "wordGroup (final (showPlanetaryPanel wd pos s)) = wordGroup s"
  by (simp add: showPlanetaryPanel_def Let_def split: option.splits sum.splits)

lemma new_planets_ids:
  "mesh_id ` set (new_planets wd pos s)
     = {Suc (nextId s) ..< Suc (nextId s) + length (new_planets wd pos s)}"
proof (cases wd)
  case None
  then show ?thesis by (simp add: new_planets_def)
next
  case (Some w)
  show ?thesis
  proof (cases "filter_js (panel_filter (timelineData s)) (books w)")
    case (Inl e)
    with Some show ?thesis by (simp add: new_planets_def)
  next
    case (Inr bs)
    with Some have "new_planets wd pos s = planets bs 0 (length bs) pos (Suc (nextId s))"
      by (simp add: new_planets_def)
    then show ?thesis by (simp only: planets_id_set length_planets)
  qed
qed

lemma new_planets_is_planet: "list_all is_planet (new_planets wd pos s)"
  by (simp add: new_planets_def planets_is_planet split: option.splits sum.splits)

lemma one_group_show: "one_group s \<Longrightarrow> one_group (final (showPlanetaryPanel wd pos s))"
  by (auto simp: one_group_def showPlanetaryPanel_def Let_def planetGroups_def getObjectByName_def
       filter_remove1_find find_None_filter split: option.splits sum.splits)

lemma fresh_show: "one_group s \<Longrightarrow> fresh_ids (final (showPlanetaryPanel wd pos s))"
proof -
  assume og: "one_group s"
  have "\<forall>m \<in> set (new_planets wd pos s). mesh_id m < Suc (nextId s) + length (new_planets wd pos s)"
    using new_planets_ids[of wd pos s] by auto
  then show ?thesis
    by (simp add: fresh_ids_def satellites_showPlanetaryPanel[OF og] nextId_showPlanetaryPanel
        list_all_iff)
qed

lemma planets_show: "one_group s \<Longrightarrow> planets_only (final (showPlanetaryPanel wd pos s))"
  by (simp add: planets_only_def satellites_showPlanetaryPanel new_planets_is_planet)

section \<open>The states the page reaches\<close>

lemma scene_inv_show: "scene_inv s \<Longrightarrow> scene_inv (final (showPlanetaryPanel wd pos s))"
  by (simp add: scene_inv_def one_group_show fresh_show planets_show words_only_def wordGroup_showPlanetaryPanel)

lemma scene_inv_same_scene:
  assumes "scene_inv s" "scene s' = scene s" "nextId s' = nextId s" "words_only s'"
  shows "scene_inv s'"
  using assms by (simp add: scene_inv_def one_group_def fresh_ids_def planets_only_def satellites_def)

lemma scene_inv_updatePanel: "scene_inv s \<Longrightarrow> scene_inv (final (updatePanel s))"
  by (auto simp: updatePanel_def scene_inv_show split: option.splits list.splits)

lemma setVisible_userData:
  "setVisible yr ms = (r, ms') \<Longrightarrow> map userData ms' = map userData ms"
  by (induction ms arbitrary: r ms') (auto split: option.splits sum.splits prod.splits)

lemma list_all_is_word_cong:
  assumes "map userData ms' = map userData ms" "list_all is_word ms"
  shows "list_all is_word ms'"
proof -
  have "list_all is_word xs = list_all (\<lambda>u. wordData_of u \<noteq> None) (map userData xs)" for xs
    by (simp add: list_all_iff is_word_def)
  with assms show ?thesis by simp
qed

lemma scene_swapYears: "scene (swapYears s) = scene s"
  by (simp add: swapYears_def)

lemma scene_inv_swapYears: "scene_inv s \<Longrightarrow> scene_inv (swapYears s)"
  by (rule scene_inv_same_scene[of s]) (simp_all add: swapYears_def scene_inv_def words_only_def)

lemma scene_inv_updateTimeline: "scene_inv s \<Longrightarrow> scene_inv (final (updateTimeline s))"
proof -
  assume a: "scene_inv s"
  let ?s1 = "swapYears s"
  have i1: "scene_inv ?s1" using a by (rule scene_inv_swapYears)
  show ?thesis
  proof (cases "wordGroup ?s1")
    case None
    then show ?thesis using i1 by (simp add: updateTimeline_def Let_def)
  next
    case (Some ms)
    obtain r ms' where sv: "setVisible (timelineData ?s1) ms = (r, ms')"
      by (cases "setVisible (timelineData ?s1) ms")
    from i1 Some have "list_all is_word ms" by (simp add: scene_inv_def words_only_def)
    with setVisible_userData[OF sv] have "list_all is_word ms'"
      by (rule list_all_is_word_cong)
    then have i2: "scene_inv (?s1\<lparr>wordGroup := Some ms'\<rparr>)"
      by (intro scene_inv_same_scene[OF i1]) (simp_all add: words_only_def)
    show ?thesis
      using Some sv i2 by (cases r) (simp_all add: updateTimeline_def Let_def scene_inv_updatePanel)
  qed
qed

lemma wordGroup_onClick: "wordGroup (final (onClick hit s)) = wordGroup s"
  by (simp add: onClick_def wordGroup_showPlanetaryPanel split: option.splits)

lemma scene_inv_onClick: "scene_inv s \<Longrightarrow> scene_inv (final (onClick hit s))"
  by (auto simp: onClick_def scene_inv_show split: option.splits)

lemma scene_inv_handle: "scene_inv s \<Longrightarrow> scene_inv (final (handle e s))"
proof (cases e)
  case (Click hit)
  assume "scene_inv s"
  then show ?thesis using Click by (simp add: scene_inv_onClick)
next
  case (SetStartYear v)
  assume a: "scene_inv s"
  have "scene_inv (s\<lparr>timelineData := (timelineData s)\<lparr>startYear := v\<rparr>\<rparr>)"
    by (rule scene_inv_same_scene[OF a]) (use a in \<open>simp_all add: scene_inv_def words_only_def\<close>)
  then show ?thesis using SetStartYear by (simp add: scene_inv_updateTimeline)
next
  case (SetEndYear v)
  assume a: "scene_inv s"
  have "scene_inv (s\<lparr>timelineData := (timelineData s)\<lparr>endYear := v\<rparr>\<rparr>)"
    by (rule scene_inv_same_scene[OF a]) (use a in \<open>simp_all add: scene_inv_def words_only_def\<close>)
  then show ?thesis using SetEndYear by (simp add: scene_inv_updateTimeline)
qed

lemma scene_inv_run: "scene_inv s \<Longrightarrow> scene_inv (run es s)"
  by (induction es arbitrary: s) (auto intro: scene_inv_handle)

lemma wordMeshes_is_word: "list_all is_word (wordMeshes ws index n i)"
  by (induction ws index n i rule: wordMeshes.induct)
     (simp_all add: is_word_def createWordMesh_def positionOnSphere_def)

lemma scene_inv_init: "scene_inv init"
  by (simp add: scene_inv_def init_def one_group_def planetGroups_def fresh_ids_def planets_only_def
      satellites_def words_only_def)

lemma scene_inv_loadData: "scene_inv (loadData remote init)"
proof -
  have "scene_inv (createWordCloud (init\<lparr>wordsData := ws\<rparr>))" for ws
    by (simp add: scene_inv_def createWordCloud_def init_def one_group_def planetGroups_def
        fresh_ids_def planets_only_def satellites_def words_only_def wordMeshes_is_word)
  then show ?thesis
    by (simp add: loadData_def scene_inv_init split: sum.splits)
qed

lemma scene_inv_reachable: "scene_inv (run es (loadData remote init))"
  by (rule scene_inv_run) (rule scene_inv_loadData)

section \<open>The meshes of the scene\<close>

lemma scene_showPlanetaryPanel:
  assumes "one_group s"
  shows "scene (final (showPlanetaryPanel wd pos s)) = others (scene s) @ new_group wd pos s"
proof -
  let ?s1 = "case getObjectByName (scene s) ''planetGroup'' of
              Some g \<Rightarrow> s\<lparr>scene := remove1 g (scene s)\<rparr> | None \<Rightarrow> s"
  have sc: "scene ?s1 = others (scene s)"
    using case_find_others[OF assms] by (simp split: option.splits)
  have tl: "timelineData ?s1 = timelineData s" by (simp split: option.splits)
  have ni: "nextId ?s1 = nextId s" by (simp split: option.splits)
  show ?thesis
  proof (cases wd)
    case None
    then show ?thesis using sc by (simp add: showPlanetaryPanel_def Let_def new_group_def)
  next
    case (Some w)
    show ?thesis
    proof (cases "filter_js (panel_filter (timelineData s)) (books w)")
      case (Inl e)
      then show ?thesis using sc Some tl
        by (simp add: showPlanetaryPanel_def Let_def new_group_def)
    next
      case (Inr bs)
      then show ?thesis using sc Some tl ni
        by (simp add: showPlanetaryPanel_def Let_def new_group_def)
    qed
  qed
qed

lemma group_children_new_group:
  "concat (map group_children (new_group wd pos s)) = new_planets wd pos s"
  by (simp add: new_group_def new_planets_def split: option.splits sum.splits)

lemma named_new_group:
  "list_all (\<lambda>obj. \<not> is_group obj \<or> object_name obj = ''planetGroup'') (new_group wd pos s)"
  by (simp add: new_group_def split: option.splits sum.splits)

lemma named_groups_show:
  assumes "one_group s" "named_groups s"
  shows "named_groups (final (showPlanetaryPanel wd pos s))"
  using assms(2) named_new_group[of wd pos s]
  by (auto simp: named_groups_def scene_showPlanetaryPanel[OF assms(1)] others_def list_all_iff)

lemma word_meshes_show: "word_meshes (final (showPlanetaryPanel wd pos s)) = word_meshes s"
  by (simp add: word_meshes_def wordGroup_showPlanetaryPanel)

lemma nextId_show_mono: "nextId s \<le> nextId (final (showPlanetaryPanel wd pos s))"
  by (simp add: nextId_showPlanetaryPanel)

lemma old_words_show: "old_words s \<Longrightarrow> old_words (final (showPlanetaryPanel wd pos s))"
  using nextId_show_mono[of s wd pos]
  by (auto simp: old_words_def word_meshes_show list_all_iff)

lemma apart_show:
  assumes "one_group s" "old_words s"
  shows "apart (final (showPlanetaryPanel wd pos s))"
proof -
  have "\<forall>i \<in> mesh_id ` set (new_planets wd pos s). Suc (nextId s) \<le> i"
    unfolding new_planets_ids by simp
  moreover have "\<forall>m \<in> set (word_meshes s). mesh_id m < nextId s"
    using assms(2) by (simp add: old_words_def list_all_iff)
  ultimately show ?thesis
    unfolding apart_def satellites_showPlanetaryPanel[OF assms(1)] word_meshes_show
    by fastforce
qed

lemma mesh_inv_show:
  "one_group s \<Longrightarrow> mesh_inv s \<Longrightarrow> mesh_inv (final (showPlanetaryPanel wd pos s))"
  by (simp add: mesh_inv_def named_groups_show old_words_show apart_show)

lemma mesh_inv_same:
  assumes "mesh_inv s" "scene s' = scene s" "nextId s' = nextId s"
    "map mesh_id (word_meshes s') = map mesh_id (word_meshes s)"
  shows "mesh_inv s'"
proof -
  have w: "mesh_id ` set (word_meshes s') = mesh_id ` set (word_meshes s)"
    using assms(4) by (metis set_map)
  have "satellites s' = satellites s" using assms(2) by (simp add: satellites_def)
  moreover have "old_words s'"
  proof -
    have "\<forall>i \<in> mesh_id ` set (word_meshes s). i < nextId s"
      using assms(1) by (auto simp: mesh_inv_def old_words_def list_all_iff)
    then have "\<forall>i \<in> mesh_id ` set (word_meshes s'). i < nextId s'"
      by (simp only: w assms(3))
    then show ?thesis by (auto simp: old_words_def list_all_iff)
  qed
  ultimately show ?thesis
    using assms(1,2) w by (simp add: mesh_inv_def named_groups_def apart_def)
qed

lemma mesh_inv_updatePanel: "one_group s \<Longrightarrow> mesh_inv s \<Longrightarrow> mesh_inv (final (updatePanel s))"
  by (auto simp: updatePanel_def mesh_inv_show split: option.splits list.splits)

lemma setVisible_mesh_id:
  "setVisible yr ms = (r, ms') \<Longrightarrow> map mesh_id ms' = map mesh_id ms"
  by (induction ms arbitrary: r ms') (auto split: option.splits sum.splits prod.splits)

lemma mesh_inv_updateTimeline:
  assumes "one_group s" "mesh_inv s"
  shows "mesh_inv (final (updateTimeline s))"
proof -
  let ?s1 = "swapYears s"
  have m1: "mesh_inv ?s1"
    by (rule mesh_inv_same[OF assms(2)]) (simp_all add: swapYears_def word_meshes_def)
  have o1: "one_group ?s1" using assms(1) by (simp add: one_group_def scene_swapYears)
  show ?thesis
  proof (cases "wordGroup ?s1")
    case None
    then show ?thesis using m1 by (simp add: updateTimeline_def Let_def)
  next
    case (Some ms)
    obtain r ms' where sv: "setVisible (timelineData ?s1) ms = (r, ms')"
      by (cases "setVisible (timelineData ?s1) ms")
    have m2: "mesh_inv (?s1\<lparr>wordGroup := Some ms'\<rparr>)"
      by (rule mesh_inv_same[OF m1]) (simp_all add: word_meshes_def Some setVisible_mesh_id[OF sv])
    have o2: "one_group (?s1\<lparr>wordGroup := Some ms'\<rparr>)" using o1 by (simp add: one_group_def)
    show ?thesis
      using Some sv m2 mesh_inv_updatePanel[OF o2 m2]
      by (cases r) (simp_all add: updateTimeline_def Let_def)
  qed
qed

lemma mesh_inv_onClick: "one_group s \<Longrightarrow> mesh_inv s \<Longrightarrow> mesh_inv (final (onClick hit s))"
  by (auto simp: onClick_def mesh_inv_show split: option.splits)

lemma mesh_inv_handle:
  assumes "one_group s" "mesh_inv s"
  shows "mesh_inv (final (handle e s))"
proof (cases e)
  case (Click hit)
  then show ?thesis using assms by (simp add: mesh_inv_onClick)
next
  case (SetStartYear v)
  let ?s = "s\<lparr>timelineData := (timelineData s)\<lparr>startYear := v\<rparr>\<rparr>"
  have "mesh_inv ?s" by (rule mesh_inv_same[OF assms(2)]) (simp_all add: word_meshes_def)
  moreover have "one_group ?s" using assms(1) by (simp add: one_group_def)
  ultimately show ?thesis using SetStartYear by (simp add: mesh_inv_updateTimeline)
next
  case (SetEndYear v)
  let ?s = "s\<lparr>timelineData := (timelineData s)\<lparr>endYear := v\<rparr>\<rparr>"
  have "mesh_inv ?s" by (rule mesh_inv_same[OF assms(2)]) (simp_all add: word_meshes_def)
  moreover have "one_group ?s" using assms(1) by (simp add: one_group_def)
  ultimately show ?thesis using SetEndYear by (simp add: mesh_inv_updateTimeline)
qed

lemma mesh_inv_run: "scene_inv s \<Longrightarrow> mesh_inv s \<Longrightarrow> mesh_inv (run es s)"
proof (induction es arbitrary: s)
  case Nil
  then show ?case by simp
next
  case (Cons e es)
  have "scene_inv (final (handle e s))" by (rule scene_inv_handle[OF Cons.prems(1)])
  moreover have "mesh_inv (final (handle e s))"
    using Cons.prems by (intro mesh_inv_handle) (simp_all add: scene_inv_def)
  ultimately show ?case using Cons.IH by simp
qed

lemma wordMeshes_ids:
  "list_all (\<lambda>m. i \<le> mesh_id m \<and> mesh_id m < i + 2 * length ws) (wordMeshes ws index n i)"
proof (induction ws index n i rule: wordMeshes.induct)
  case (1 index ntotal i)
  then show ?case by simp
next
  case (2 w ws index ntotal i)
  then show ?case
    by (auto simp: createWordMesh_def positionOnSphere_def list_all_iff)
qed

lemma mesh_inv_loadData: "mesh_inv (loadData remote init)"
proof -
  have i: "mesh_inv init"
    by (simp add: mesh_inv_def named_groups_def old_words_def apart_def init_def word_meshes_def
        is_group_def satellites_def planetGroups_def)
  have "mesh_inv (createWordCloud (init\<lparr>wordsData := ws\<rparr>))" for ws
    using wordMeshes_ids[of "Suc 0" ws 0 "length ws"]
    by (auto simp: mesh_inv_def named_groups_def old_words_def apart_def init_def word_meshes_def
        is_group_def satellites_def planetGroups_def createWordCloud_def list_all_iff)
  then show ?thesis using i by (simp add: loadData_def split: sum.splits)
qed

lemma mesh_inv_reachable: "mesh_inv (run es (loadData remote init))"
  by (rule mesh_inv_run[OF scene_inv_loadData mesh_inv_loadData])

lemma scene_groups_named: "named_groups s \<Longrightarrow> scene_groups (scene s) = planetGroups (scene s)"
proof -
  assume "named_groups s"
  then have a: "\<forall>obj \<in> set (scene s). is_group obj = (object_name obj = ''planetGroup'')"
  proof -
    have "object_name obj = ''planetGroup'' \<Longrightarrow> is_group obj" for obj
      by (cases obj) (simp_all add: is_group_def)
    with \<open>named_groups s\<close> show ?thesis by (auto simp: named_groups_def list_all_iff)
  qed
  show ?thesis unfolding scene_groups_def planetGroups_def
    by (rule filter_cong[OF refl]) (use a in simp)
qed

lemma scene_meshes_subset:
  assumes "named_groups s"
  shows "set (scene_meshes s) \<subseteq> set (word_meshes s) \<union> set (satellites s)"
proof
  fix m assume "m \<in> set (scene_meshes s)"
  then obtain obj where obj: "obj \<in> set (scene s)" "m \<in> set (children_of s obj)"
    by (auto simp: scene_meshes_def)
  show "m \<in> set (word_meshes s) \<union> set (satellites s)"
  proof (cases obj)
    case (Group i n cs)
    with obj(1) assms have "n = ''planetGroup''"
      by (auto simp: named_groups_def list_all_iff is_group_def)
    with Group obj show ?thesis
      by (auto simp: satellites_def planetGroups_def)
  next
    case WordGroup
    with obj(2) show ?thesis by (simp add: word_meshes_def)
  qed (use obj(2) in simp_all)
qed

lemma book_meshes_subset:
  assumes "named_groups s" "words_only s"
  shows "set (book_meshes s) \<subseteq> set (satellites s)"
proof
  fix m assume "m \<in> set (book_meshes s)"
  then have m: "m \<in> set (scene_meshes s)" "is_planet m" by (simp_all add: book_meshes_def)
  from m(1) scene_meshes_subset[OF assms(1)]
  have "m \<in> set (word_meshes s) \<or> m \<in> set (satellites s)" by auto
  moreover have "m \<notin> set (word_meshes s)"
  proof
    assume "m \<in> set (word_meshes s)"
    with assms(2) have "is_word m"
      by (auto simp: words_only_def word_meshes_def list_all_iff split: option.splits)
    with m(2) show False by (simp add: is_word_def is_planet_def)
  qed
  ultimately show "m \<in> set (satellites s)" by simp
qed

section \<open>One selection at a time\<close>

text \<open>
  Claim C8. In every state the page reaches from the loaded catalog, by any clicks and
  slider moves, the scene holds at most one group at all, and it is the planet group. When
  word \<open>a\<close> is clicked and then a word \<open>b\<close> of the cloud, no book mesh that was anywhere in
  the scene after the first click is among the meshes of the whole scene after the second:
  the group of the first selection is removed before the group of the second is added, and
  the planets of the second are new objects.
\<close>

theorem selection_replaces_previous:
  assumes "b < word_count (run es (loadData remote init))"
  shows "let s = run es (loadData remote init);
             sA = final (handle (Click (Some a)) s);
             sB = final (handle (Click (Some b)) sA)
         in length (planetGroups (scene s)) \<le> 1
          \<and> length (planetGroups (scene sA)) \<le> 1
          \<and> length (planetGroups (scene sB)) \<le> 1
          \<and> mesh_id ` set (satellites sA) \<inter> mesh_id ` set (satellites sB) = {}
          \<and> length (scene_groups (scene s)) \<le> 1
          \<and> length (scene_groups (scene sA)) \<le> 1
          \<and> length (scene_groups (scene sB)) \<le> 1
          \<and> mesh_id ` set (book_meshes sA) \<inter> mesh_id ` set (scene_meshes sB) = {}"
proof -
  define s where "s = run es (loadData remote init)"
  define sA where "sA = final (handle (Click (Some a)) s)"
  define sB where "sB = final (handle (Click (Some b)) sA)"
  have i0: "scene_inv s" unfolding s_def by (rule scene_inv_reachable)
  have iA: "scene_inv sA" unfolding sA_def by (rule scene_inv_handle[OF i0])
  have iB: "scene_inv sB" unfolding sB_def by (rule scene_inv_handle[OF iA])
  have m0: "mesh_inv s" unfolding s_def by (rule mesh_inv_reachable)
  have og0: "one_group s" using i0 by (simp add: scene_inv_def)
  have ogA: "one_group sA" using iA by (simp add: scene_inv_def)
  have ogB: "one_group sB" using iB by (simp add: scene_inv_def)
  have mA: "mesh_inv sA" unfolding sA_def by (rule mesh_inv_handle[OF og0 m0])
  have mB: "mesh_inv sB" unfolding sB_def by (rule mesh_inv_handle[OF ogA mA])
  from assms obtain ms where ms: "wordGroup s = Some ms" "b < length ms"
    by (auto simp: word_count_def s_def split: option.splits)
  have wg: "wordGroup sA = Some ms" using ms(1) by (simp add: sA_def wordGroup_onClick)
  with iA ms(2) have "is_word (ms ! b)"
    by (simp add: scene_inv_def words_only_def list_all_length)
  then obtain w where w: "wordData_of (userData (ms ! b)) = Some w"
    by (auto simp: is_word_def)
  have sB: "sB = final (showPlanetaryPanel (Some w) (position (ms ! b)) sA)"
    using ms(2) wg w by (simp add: sB_def onClick_def)
  have satB: "satellites sB = new_planets (Some w) (position (ms ! b)) sA"
    unfolding sB by (rule satellites_showPlanetaryPanel[OF ogA])
  have oldA: "\<forall>m \<in> set (satellites sA). mesh_id m < nextId sA"
    using iA by (simp add: scene_inv_def fresh_ids_def list_all_iff)
  have newB: "\<forall>i \<in> mesh_id ` set (satellites sB). Suc (nextId sA) \<le> i"
    unfolding satB new_planets_ids by simp
  have sat: "mesh_id ` set (satellites sA) \<inter> mesh_id ` set (satellites sB) = {}"
    using oldA newB by fastforce
  have wB: "word_meshes sB = word_meshes sA"
    unfolding sB by (rule word_meshes_show)
  have apA: "mesh_id ` set (satellites sA) \<inter> mesh_id ` set (word_meshes sA) = {}"
    using mA by (simp add: mesh_inv_def apart_def)
  have bkA: "set (book_meshes sA) \<subseteq> set (satellites sA)"
    using mA iA by (intro book_meshes_subset) (simp_all add: mesh_inv_def scene_inv_def)
  have scB: "set (scene_meshes sB) \<subseteq> set (word_meshes sA) \<union> set (satellites sB)"
    using scene_meshes_subset[of sB] mB wB by (simp add: mesh_inv_def)
  have whole: "mesh_id ` set (book_meshes sA) \<inter> mesh_id ` set (scene_meshes sB) = {}"
  proof -
    have "mesh_id ` set (book_meshes sA) \<subseteq> mesh_id ` set (satellites sA)"
      using bkA by (rule image_mono)
    moreover have "mesh_id ` set (scene_meshes sB)
        \<subseteq> mesh_id ` set (word_meshes sA) \<union> mesh_id ` set (satellites sB)"
      using image_mono[OF scB, of mesh_id] by (simp add: image_Un)
    ultimately show ?thesis using sat apA by blast
  qed
  have g: "length (scene_groups (scene s)) \<le> 1" "length (scene_groups (scene sA)) \<le> 1"
    "length (scene_groups (scene sB)) \<le> 1"
    using m0 mA mB og0 ogA ogB
    by (simp_all add: mesh_inv_def scene_groups_named one_group_def)
  have p: "length (planetGroups (scene s)) \<le> 1" "length (planetGroups (scene sA)) \<le> 1"
    "length (planetGroups (scene sB)) \<le> 1"
    using og0 ogA ogB by (simp_all add: one_group_def)
  have "length (planetGroups (scene s)) \<le> 1
          \<and> length (planetGroups (scene sA)) \<le> 1
          \<and> length (planetGroups (scene sB)) \<le> 1
          \<and> mesh_id ` set (satellites sA) \<inter> mesh_id ` set (satellites sB) = {}
          \<and> length (scene_groups (scene s)) \<le> 1
          \<and> length (scene_groups (scene sA)) \<le> 1
          \<and> length (scene_groups (scene sB)) \<le> 1
          \<and> mesh_id ` set (book_meshes sA) \<inter> mesh_id ` set (scene_meshes sB) = {}"
    by (intro conjI p g sat whole)
  then show ?thesis by (simp add: Let_def s_def sA_def sB_def)
qed

lemma one_page_words: "word_count (loadData one_page init) = 5"
  by code_simp

theorem selection_replaces_previous_witness:
  "(1::nat) < word_count (run [] (loadData one_page init))
   \<and> (let s = run [] (loadData one_page init);
           sA = final (handle (Click (Some 0)) s);
           sB = final (handle (Click (Some 1)) sA)
       in length (planetGroups (scene s)) \<le> 1
        \<and> length (planetGroups (scene sA)) \<le> 1
        \<and> length (planetGroups (scene sB)) \<le> 1
        \<and> mesh_id ` set (satellites sA) \<inter> mesh_id ` set (satellites sB) = {}
        \<and> length (scene_groups (scene s)) \<le> 1
        \<and> length (scene_groups (scene sA)) \<le> 1
        \<and> length (scene_groups (scene sB)) \<le> 1
        \<and> mesh_id ` set (book_meshes sA) \<inter> mesh_id ` set (scene_meshes sB) = {})
   \<and> map mesh_id (book_meshes (final (handle (Click (Some 0)) (loadData one_page init)))) = [12]
   \<and> map mesh_id (scene_meshes (final (handle (Click (Some 1))
         (final (handle (Click (Some 0)) (loadData one_page init))))))
       = [1, 3, 5, 7, 9, 14, 15]"
proof -
  have h: "(1::nat) < word_count (run [] (loadData one_page init))"
    by (simp add: one_page_words)
  have e1: "map mesh_id (book_meshes (final (handle (Click (Some 0)) (loadData one_page init)))) = [12]"
    by code_simp
  have e2: "map mesh_id (scene_meshes (final (handle (Click (Some 1))
         (final (handle (Click (Some 0)) (loadData one_page init))))))
       = [1, 3, 5, 7, 9, 14, 15]"
    by code_simp
  show ?thesis
    by (intro conjI h e1 e2 selection_replaces_previous[OF h, of 0])
qed

section \<open>A slider move while a selection is open\<close>

text \<open>
  \<^verbatim>\<open>updateTimeline\<close> takes \<^verbatim>\<open>planetGroup.children[0]\<close> for the mesh of the selected
  word. The children of a planet group are planets, whose \<^verbatim>\<open>userData\<close> has no
  \<^verbatim>\<open>wordData\<close>, so \<^verbatim>\<open>showPlanetaryPanel\<close> is called with \<^verbatim>\<open>undefined\<close> and throws
  after it has removed the group; an empty group has no first child at all.
\<close>

lemma updatePanel_throws:
  assumes "planets_only s" "getObjectByName (scene s) ''planetGroup'' = Some g"
  shows "threw (updatePanel s)"
proof -
  from find_name_Group[OF assms(2)] obtain i cs
    where g: "g = Group i ''planetGroup'' cs" "g \<in> set (scene s)"
    by blast
  then have "g \<in> set (planetGroups (scene s))" by (simp add: planetGroups_def)
  then have "set cs \<subseteq> set (satellites s)" using g(1) by (auto simp: satellites_def)
  with assms(1) have pl: "list_all is_planet cs"
    by (auto simp: planets_only_def list_all_iff)
  show ?thesis
  proof (cases cs)
    case Nil
    then show ?thesis using assms(2) g(1) by (simp add: updatePanel_def)
  next
    case (Cons m ms)
    with pl have "wordData_of (userData m) = None" by (simp add: is_planet_def)
    then show ?thesis using assms(2) g(1) Cons
      by (simp add: updatePanel_def showPlanetaryPanel_None)
  qed
qed

lemma updateTimeline_throws:
  assumes "planets_only s" "getObjectByName (scene s) ''planetGroup'' = Some g"
  shows "threw (updateTimeline s)"
proof -
  let ?s1 = "swapYears s"
  show ?thesis
  proof (cases "wordGroup ?s1")
    case None
    then show ?thesis by (simp add: updateTimeline_def Let_def)
  next
    case (Some ms)
    obtain r ms' where sv: "setVisible (timelineData ?s1) ms = (r, ms')"
      by (cases "setVisible (timelineData ?s1) ms")
    have "planets_only (?s1\<lparr>wordGroup := Some ms'\<rparr>)"
      using assms(1) by (simp add: planets_only_def satellites_def scene_swapYears)
    moreover have "getObjectByName (scene (?s1\<lparr>wordGroup := Some ms'\<rparr>)) ''planetGroup'' = Some g"
      using assms(2) by (simp add: scene_swapYears)
    ultimately have "threw (updatePanel (?s1\<lparr>wordGroup := Some ms'\<rparr>))"
      by (rule updatePanel_throws)
    then show ?thesis using Some sv by (cases r) (simp_all add: updateTimeline_def Let_def)
  qed
qed

lemma slider_throws_when_selection_open:
  assumes "s = run es (loadData remote init)"
      and "getObjectByName (scene s) ''planetGroup'' = Some g"
  shows "threw (handle (SetStartYear v) s) \<and> threw (handle (SetEndYear v) s)"
proof -
  have "scene_inv s" unfolding assms(1) by (rule scene_inv_reachable)
  then have p: "planets_only s" by (simp add: scene_inv_def)
  have "planets_only (s\<lparr>timelineData := t\<rparr>)" for t
    using p by (simp add: planets_only_def satellites_def)
  moreover have "getObjectByName (scene (s\<lparr>timelineData := t\<rparr>)) ''planetGroup'' = Some g" for t
    using assms(2) by simp
  ultimately show ?thesis by (simp add: updateTimeline_throws)
qed

text \<open>
  Claim C2. The claim is that a slider move recomputes the open selection for the selected
  word and does not fail. In the catalog of one page, the first word is clicked, which
  opens a selection of one planet, and the end slider is moved to 2000: the handler
  throws and the scene is left without any planet group. With the end year at 1850 first,
  the same click opens an empty selection, and the move of the slider throws again.
\<close>

theorem timeline_update_throws_with_open_selection:
  "length (satellites (final (handle (Click (Some 0)) (loadData one_page init)))) = 1
   \<and> threw (handle (SetEndYear 2000) (final (handle (Click (Some 0)) (loadData one_page init))))
   \<and> planetGroups (scene (final (handle (SetEndYear 2000)
         (final (handle (Click (Some 0)) (loadData one_page init)))))) = []
   \<and> length (planetGroups (scene (final (handle (Click (Some 0))
         (final (handle (SetEndYear 1850) (loadData one_page init))))))) = 1
   \<and> satellites (final (handle (Click (Some 0))
         (final (handle (SetEndYear 1850) (loadData one_page init))))) = []
   \<and> threw (handle (SetEndYear 2000) (final (handle (Click (Some 0))
         (final (handle (SetEndYear 1850) (loadData one_page init))))))"
  by code_simp


section \<open>The year of a book and the selection filter\<close>

text \<open>
  For the books on which \<^verbatim>\<open>||\<close> and ``if present'' agree, the filter of
  \<^verbatim>\<open>showPlanetaryPanel\<close> keeps exactly the books whose effective year lies in the range,
  in their order, and the satellites are made from them.
\<close>

lemma panel_filter_plain: "plain_book b \<Longrightarrow> panel_filter yr b = Inr (spec_in_range yr b)"
  by (auto simp: plain_book_def panel_filter_def first_author_def panel_year_def deathYear_of_def
      birthYear_of_def spec_in_range_def spec_effective_year_def
      split: option.splits list.splits)

lemma filter_js_total:
  "list_all (\<lambda>x. p x = Inr (q x)) xs \<Longrightarrow> filter_js p xs = Inr (filter q xs)"
  by (induction xs) auto

lemma filter_js_plain:
  "list_all plain_book bs \<Longrightarrow> filter_js (panel_filter yr) bs = Inr (filter (spec_in_range yr) bs)"
  by (rule filter_js_total) (simp add: list_all_iff panel_filter_plain)

lemma planets_books: "map (\<lambda>m. book_of (userData m)) (planets bs index n c i) = map Some bs"
  by (induction bs index n c i rule: planets.induct)
     (simp_all add: createPlanetMesh_def positionPlanet_def)

lemma panel_shows_books_in_range:
  assumes "one_group s" "list_all plain_book (books w)"
  shows "map (\<lambda>m. book_of (userData m)) (satellites (final (showPlanetaryPanel (Some w) pos s)))
           = map Some (filter (spec_in_range (timelineData s)) (books w))"
  by (simp add: satellites_showPlanetaryPanel[OF assms(1)] new_planets_def
      filter_js_plain[OF assms(2)] planets_books)

text \<open>
  Claim C1. The claim takes the death year whenever it is present. The book
  \<open>annals\<close> has an author with the death year 0 and the birth year 1850: its effective
  year by the claim is 0, outside the range 1800 to 2023, and yet the filter keeps the
  book and the selection of its word shows it, because \<^verbatim>\<open>0 || 1850\<close> is 1850.
\<close>

theorem year_zero_read_as_missing:
  "spec_effective_year annals = 0
   \<and> \<not> spec_in_range \<lparr>startYear = 1800, endYear = 2023\<rparr> annals
   \<and> timelineData (loadData year0_page init) = \<lparr>startYear = 1800, endYear = 2023\<rparr>
   \<and> panel_filter \<lparr>startYear = 1800, endYear = 2023\<rparr> annals = Inr True
   \<and> map (\<lambda>m. book_of (userData m))
        (satellites (final (handle (Click (Some 0)) (loadData year0_page init)))) = [Some annals]"
  by code_simp


section \<open>Only the first author counts\<close>

lemma first_author_first_only: "first_author (first_only b) = first_author b"
  by (simp add: first_author_def first_only_def split: option.splits list.splits)

lemma panel_filter_first_only: "panel_filter yr (first_only b) = panel_filter yr b"
  by (simp add: panel_filter_def first_author_first_only)

lemma timeline_filter_first_only: "timeline_filter yr (first_only b) = timeline_filter yr b"
  by (simp add: timeline_filter_def first_author_first_only)

lemma filter_js_map:
  "(\<And>x. p (f x) = p x) \<Longrightarrow> filter_js p (map f xs) = map_sum id (map f) (filter_js p xs)"
  by (induction xs) (auto split: sum.splits)

lemma tooltip_first_only:
  "map_sum id tip_year (showTooltip (first_only b)) = map_sum id tip_year (showTooltip b)"
proof -
  have "subjects (first_only b) = subjects b" by (simp add: first_only_def)
  then show ?thesis
    by (simp add: showTooltip_def first_author_first_only Let_def split: sum.splits option.splits)
qed

lemma visible_first_only_mesh: "visible (first_only_mesh m) = visible m"
  by (simp add: first_only_mesh_def)

lemma setVisible_first_only:
  "fst (setVisible yr (map first_only_mesh ms)) = fst (setVisible yr ms)
   \<and> map visible (snd (setVisible yr (map first_only_mesh ms))) = map visible (snd (setVisible yr ms))"
proof (induction ms)
  case Nil
  then show ?case by simp
next
  case (Cons m ms)
  show ?case
  proof (cases "userData m")
    case (BookUD b)
    then have "userData (first_only_mesh m) = BookUD (first_only b)"
      by (simp add: first_only_mesh_def)
    with BookUD show ?thesis by (simp add: visible_first_only_mesh)
  next
    case (WordUD w)
    have ud: "userData (first_only_mesh m) = WordUD (first_only_word w)"
      using WordUD by (simp add: first_only_mesh_def)
    have fj: "filter_js (timeline_filter yr) (books (first_only_word w))
        = map_sum id (map first_only) (filter_js (timeline_filter yr) (books w))"
      unfolding first_only_word_def
      by (simp add: filter_js_map timeline_filter_first_only)
    obtain r ms' where a: "setVisible yr ms = (r, ms')"
      by (cases "setVisible yr ms")
    obtain r2 ms2 where b: "setVisible yr (map first_only_mesh ms) = (r2, ms2)"
      by (cases "setVisible yr (map first_only_mesh ms)")
    from Cons.IH a b have ih: "r2 = r" "map visible ms2 = map visible ms'" by simp_all
    show ?thesis
      using WordUD ud fj a b ih
      by (cases "filter_js (timeline_filter yr) (books w)")
         (simp_all add: visible_first_only_mesh)
  qed
qed

text \<open>
  Claim C10. Taking away every author but the first changes none of the three places that
  compute a year: the selection filter keeps the same books (and fails on the same
  inputs), the timeline pass gives every word the same visibility, and the tooltip shows
  the same year.
\<close>

theorem later_authors_ignored:
  "filter_js (panel_filter yr) (map first_only bs)
     = map_sum id (map first_only) (filter_js (panel_filter yr) bs)
   \<and> fst (setVisible yr (map first_only_mesh ms)) = fst (setVisible yr ms)
   \<and> map visible (snd (setVisible yr (map first_only_mesh ms))) = map visible (snd (setVisible yr ms))
   \<and> map_sum id tip_year (showTooltip (first_only b)) = map_sum id tip_year (showTooltip b)"
  using setVisible_first_only[of yr ms]
  by (simp add: filter_js_map panel_filter_first_only tooltip_first_only)

section \<open>The fetch loop\<close>

lemma fetchPages_log:
  "length (fst (fetchPages remote ab np pc)) \<le> 3 - pc
   \<and> (fst (fetchPages remote ab np pc) \<noteq> [] \<longrightarrow> np = Some (hd (fst (fetchPages remote ab np pc))))
   \<and> (\<forall>k. Suc k < length (fst (fetchPages remote ab np pc)) \<longrightarrow>
         (\<exists>d. remote (pc + k) (fst (fetchPages remote ab np pc) ! k) = Inr d
              \<and> next_cursor d = Some (fst (fetchPages remote ab np pc) ! Suc k)))
   \<and> (\<forall>k d. k < length (fst (fetchPages remote ab np pc)) \<longrightarrow>
         remote (pc + k) (fst (fetchPages remote ab np pc) ! k) = Inr d \<longrightarrow>
         next_cursor d = None \<longrightarrow> length (fst (fetchPages remote ab np pc)) = Suc k)"
proof (induction remote ab np pc rule: fetchPages.induct)
  case (1 remote allBooks nextPage pageCount)
  show ?case
  proof (cases nextPage)
    case None
    then have "fst (fetchPages remote allBooks nextPage pageCount) = []"
      by (subst fetchPages.simps) simp
    then show ?thesis by simp
  next
    case (Some url)
    show ?thesis
    proof (cases "url \<noteq> [] \<and> pageCount < 3")
      case False
      with Some have "fst (fetchPages remote allBooks nextPage pageCount) = []"
        by (subst fetchPages.simps) auto
      then show ?thesis by simp
    next
      case True
      show ?thesis
      proof (cases "remote pageCount url")
        case (Inl e)
        with Some True have "fst (fetchPages remote allBooks nextPage pageCount) = [url]"
          by (subst fetchPages.simps) simp
        then show ?thesis using Some True Inl by auto
      next
        case (Inr data)
        let ?rest = "fst (fetchPages remote (allBooks @ results data) (next_cursor data) (Suc pageCount))"
        have log: "fst (fetchPages remote allBooks nextPage pageCount) = url # ?rest"
          using Some True Inr
          by (subst fetchPages.simps) (simp split: prod.splits)
        note IH = "1.IH"[OF Some True Inr]
        have len: "length ?rest \<le> 3 - Suc pageCount" using IH by blast
        have hd: "?rest \<noteq> [] \<longrightarrow> next_cursor data = Some (hd ?rest)" using IH by blast
        have chain: "\<And>k. Suc k < length ?rest \<Longrightarrow>
           \<exists>d. remote (Suc pageCount + k) (?rest ! k) = Inr d \<and> next_cursor d = Some (?rest ! Suc k)"
          using IH by blast
        have stop: "\<And>k d. k < length ?rest \<Longrightarrow> remote (Suc pageCount + k) (?rest ! k) = Inr d \<Longrightarrow>
           next_cursor d = None \<Longrightarrow> length ?rest = Suc k"
          using IH by blast
        have c1: "length (url # ?rest) \<le> 3 - pageCount" using len True by auto
        have c2: "nextPage = Some (hd (url # ?rest))" using Some by simp
        have c3: "\<exists>d. remote (pageCount + k) ((url # ?rest) ! k) = Inr d
                     \<and> next_cursor d = Some ((url # ?rest) ! Suc k)"
          if "Suc k < length (url # ?rest)" for k
        proof (cases k)
          case 0
          with that have "?rest \<noteq> []" by auto
          with hd have "next_cursor data = Some (?rest ! 0)" by (simp add: hd_conv_nth)
          with 0 Inr show ?thesis by simp
        next
          case (Suc j)
          with that have "Suc j < length ?rest" by simp
          from chain[OF this] Suc show ?thesis by simp
        qed
        have c4: "length (url # ?rest) = Suc k"
          if "k < length (url # ?rest)" "remote (pageCount + k) ((url # ?rest) ! k) = Inr d"
             "next_cursor d = None" for k d
        proof (cases k)
          case 0
          with that Inr have "next_cursor data = None" by simp
          with hd have "?rest = []" by auto
          with 0 show ?thesis by simp
        next
          case (Suc j)
          with that have "j < length ?rest" "remote (Suc pageCount + j) (?rest ! j) = Inr d" by simp_all
          from stop[OF this that(3)] Suc show ?thesis by simp
        qed
        show ?thesis unfolding log using c1 c2 c3 c4 by blast
      qed
    qed
  qed
qed

lemma fetchPages_first:
  "(fst (fetchPages remote ab np pc) \<noteq> []) = (\<exists>url. np = Some url \<and> url \<noteq> [] \<and> pc < 3)"
  by (subst fetchPages.simps) (auto split: option.splits sum.splits prod.splits)

lemma fetchPages_stop_rule:
  "(\<forall>k d u. k < length (fst (fetchPages remote ab np pc)) \<longrightarrow>
         remote (pc + k) (fst (fetchPages remote ab np pc) ! k) = Inr d \<longrightarrow>
         next_cursor d = Some u \<longrightarrow> u \<noteq> [] \<longrightarrow> Suc (pc + k) < 3 \<longrightarrow>
         Suc k < length (fst (fetchPages remote ab np pc)))
   \<and> (\<forall>k e. k < length (fst (fetchPages remote ab np pc)) \<longrightarrow>
         remote (pc + k) (fst (fetchPages remote ab np pc) ! k) = Inl e \<longrightarrow>
         length (fst (fetchPages remote ab np pc)) = Suc k)
   \<and> (\<forall>k d. k < length (fst (fetchPages remote ab np pc)) \<longrightarrow>
         remote (pc + k) (fst (fetchPages remote ab np pc) ! k) = Inr d \<longrightarrow>
         next_cursor d = Some [] \<longrightarrow>
         length (fst (fetchPages remote ab np pc)) = Suc k)"
proof (induction remote ab np pc rule: fetchPages.induct)
  case (1 remote allBooks nextPage pageCount)
  show ?case
  proof (cases nextPage)
    case None
    then have "fst (fetchPages remote allBooks nextPage pageCount) = []"
      by (subst fetchPages.simps) simp
    then show ?thesis by simp
  next
    case (Some url)
    show ?thesis
    proof (cases "url \<noteq> [] \<and> pageCount < 3")
      case False
      with Some have "fst (fetchPages remote allBooks nextPage pageCount) = []"
        by (subst fetchPages.simps) auto
      then show ?thesis by simp
    next
      case True
      show ?thesis
      proof (cases "remote pageCount url")
        case (Inl e)
        with Some True have "fst (fetchPages remote allBooks nextPage pageCount) = [url]"
          by (subst fetchPages.simps) simp
        then show ?thesis using Inl by auto
      next
        case (Inr data)
        let ?rest = "fst (fetchPages remote (allBooks @ results data) (next_cursor data) (Suc pageCount))"
        have log: "fst (fetchPages remote allBooks nextPage pageCount) = url # ?rest"
          using Some True Inr
          by (subst fetchPages.simps) (simp split: prod.splits)
        note IH = "1.IH"[OF Some True Inr]
        have go: "\<And>k d u. k < length ?rest \<Longrightarrow> remote (Suc pageCount + k) (?rest ! k) = Inr d \<Longrightarrow>
            next_cursor d = Some u \<Longrightarrow> u \<noteq> [] \<Longrightarrow> Suc (Suc pageCount + k) < 3 \<Longrightarrow>
            Suc k < length ?rest"
          using IH by blast
        have err: "\<And>k e. k < length ?rest \<Longrightarrow> remote (Suc pageCount + k) (?rest ! k) = Inl e \<Longrightarrow>
            length ?rest = Suc k"
          using IH by blast
        have emp: "\<And>k d. k < length ?rest \<Longrightarrow> remote (Suc pageCount + k) (?rest ! k) = Inr d \<Longrightarrow>
            next_cursor d = Some [] \<Longrightarrow> length ?rest = Suc k"
          using IH by blast
        have c1: "Suc k < length (url # ?rest)"
          if "k < length (url # ?rest)" "remote (pageCount + k) ((url # ?rest) ! k) = Inr d"
             "next_cursor d = Some u" "u \<noteq> []" "Suc (pageCount + k) < 3" for k d u
        proof (cases k)
          case 0
          with that Inr have "next_cursor data = Some u" by simp
          with that(4,5) 0 have "?rest \<noteq> []" by (simp add: fetchPages_first)
          with 0 show ?thesis by simp
        next
          case (Suc j)
          with that have "j < length ?rest" "remote (Suc pageCount + j) (?rest ! j) = Inr d"
            "Suc (Suc pageCount + j) < 3" by simp_all
          from go[OF this(1,2) that(3,4) this(3)] Suc show ?thesis by simp
        qed
        have c2: "length (url # ?rest) = Suc k"
          if "k < length (url # ?rest)" "remote (pageCount + k) ((url # ?rest) ! k) = Inl e" for k e
        proof (cases k)
          case 0
          with that Inr show ?thesis by simp
        next
          case (Suc j)
          with that have "j < length ?rest" "remote (Suc pageCount + j) (?rest ! j) = Inl e" by simp_all
          from err[OF this] Suc show ?thesis by simp
        qed
        have c3: "length (url # ?rest) = Suc k"
          if "k < length (url # ?rest)" "remote (pageCount + k) ((url # ?rest) ! k) = Inr d"
             "next_cursor d = Some []" for k d
        proof (cases k)
          case 0
          with that Inr have "next_cursor data = Some []" by simp
          then have "?rest = []"
            using fetchPages_first[of remote "allBooks @ results data" "next_cursor data" "Suc pageCount"]
            by simp
          with 0 show ?thesis by simp
        next
          case (Suc j)
          with that have "j < length ?rest" "remote (Suc pageCount + j) (?rest ! j) = Inr d" by simp_all
          from emp[OF this that(3)] Suc show ?thesis by simp
        qed
        show ?thesis unfolding log using c1 c2 c3 by blast
      qed
    qed
  qed
qed

lemma three_pages:
  assumes "remote 0 first_url = Inr d0" "next_cursor d0 = Some u1" "u1 \<noteq> []"
    "remote 1 u1 = Inr d1" "next_cursor d1 = Some u2" "u2 \<noteq> []" "remote 2 u2 = Inr d2"
  shows "fetchPages remote [] (Some first_url) 0
           = ([first_url, u1, u2], Inr (results d0 @ results d1 @ results d2))"
proof -
  have "fetchPages remote (results d0 @ results d1 @ results d2) (next_cursor d2) (Suc (Suc (Suc 0)))
      = ([], Inr (results d0 @ results d1 @ results d2))"
    by (subst fetchPages.simps) (simp split: option.splits)
  then have "fetchPages remote (results d0 @ results d1) (Some u2) (Suc (Suc 0))
      = ([u2], Inr (results d0 @ results d1 @ results d2))"
    using assms by (subst fetchPages.simps) (simp add: numeral_2_eq_2)
  then have "fetchPages remote (results d0) (Some u1) (Suc 0)
      = ([u1, u2], Inr (results d0 @ results d1 @ results d2))"
    using assms by (subst fetchPages.simps) simp
  then show ?thesis
    using assms by (subst fetchPages.simps) (simp add: first_url_def)
qed

text \<open>
  Claim C6. The loop always returns. It asks for at least one and at most three pages;
  the first request goes to the catalog's address and every later one to the cursor of
  the reply before it, so the requests are made one after the other. It stops exactly
  when three pages have been asked for or a request brings no cursor to follow: a reply
  with a cursor, before the third page, is followed by the next request; a reply without
  a cursor, with an empty one, or a failed request is the last. When the first reply
  carries a cursor and the second does not, exactly these two pages are fetched and their
  books are the result; when the first two replies carry a cursor, exactly three pages are
  fetched, whatever the third reply offers.
\<close>

theorem fetch_loop_pages:
  "let requested = fst (fetchPages remote [] (Some first_url) 0) in
     1 \<le> length requested \<and> length requested \<le> 3 \<and> requested ! 0 = first_url
   \<and> (\<forall>k. Suc k < length requested \<longrightarrow>
         (\<exists>d. remote k (requested ! k) = Inr d \<and> next_cursor d = Some (requested ! Suc k)))
   \<and> (\<forall>k d. k < length requested \<longrightarrow> remote k (requested ! k) = Inr d \<longrightarrow>
         next_cursor d = None \<longrightarrow> length requested = Suc k)
   \<and> (remote 0 first_url = Inr d0 \<and> next_cursor d0 = Some u1 \<and> u1 \<noteq> []
        \<and> remote 1 u1 = Inr d1 \<and> next_cursor d1 = None \<longrightarrow>
        fetchPages remote [] (Some first_url) 0 = ([first_url, u1], Inr (results d0 @ results d1)))
   \<and> (\<forall>k d u. k < length requested \<longrightarrow> remote k (requested ! k) = Inr d \<longrightarrow>
         next_cursor d = Some u \<longrightarrow> u \<noteq> [] \<longrightarrow> k < 2 \<longrightarrow> Suc k < length requested)
   \<and> (\<forall>k e. k < length requested \<longrightarrow> remote k (requested ! k) = Inl e \<longrightarrow>
         length requested = Suc k)
   \<and> (\<forall>k d. k < length requested \<longrightarrow> remote k (requested ! k) = Inr d \<longrightarrow>
         next_cursor d = Some [] \<longrightarrow> length requested = Suc k)
   \<and> (remote 0 first_url = Inr d0 \<and> next_cursor d0 = Some u1 \<and> u1 \<noteq> []
        \<and> remote 1 u1 = Inr d1 \<and> next_cursor d1 = Some u2 \<and> u2 \<noteq> []
        \<and> remote 2 u2 = Inr d2 \<longrightarrow>
        fetchPages remote [] (Some first_url) 0
          = ([first_url, u1, u2], Inr (results d0 @ results d1 @ results d2)))"
proof -
  let ?log = "fst (fetchPages remote [] (Some first_url) 0)"
  note L = fetchPages_log[of remote "[]" "Some first_url" 0]
  note S = fetchPages_stop_rule[of remote "[]" "Some first_url" 0]
  have ne: "?log \<noteq> []"
    by (simp add: fetchPages_first first_url_def)
  have a: "1 \<le> length ?log" using ne by (cases ?log) simp_all
  have b: "length ?log \<le> 3" using L by simp
  have c: "?log ! 0 = first_url" using L ne by (simp add: hd_conv_nth)
  have d: "\<forall>k. Suc k < length ?log \<longrightarrow>
         (\<exists>d. remote k (?log ! k) = Inr d \<and> next_cursor d = Some (?log ! Suc k))"
    using L by simp
  have e: "\<forall>k d. k < length ?log \<longrightarrow> remote k (?log ! k) = Inr d \<longrightarrow>
         next_cursor d = None \<longrightarrow> length ?log = Suc k"
    using L by simp
  have f: "remote 0 first_url = Inr d0 \<and> next_cursor d0 = Some u1 \<and> u1 \<noteq> []
        \<and> remote 1 u1 = Inr d1 \<and> next_cursor d1 = None \<longrightarrow>
        fetchPages remote [] (Some first_url) 0 = ([first_url, u1], Inr (results d0 @ results d1))"
  proof
    assume that: "remote 0 first_url = Inr d0 \<and> next_cursor d0 = Some u1 \<and> u1 \<noteq> []
        \<and> remote 1 u1 = Inr d1 \<and> next_cursor d1 = None"
    have "fetchPages remote (results d0 @ results d1) None (Suc (Suc 0)) = ([], Inr (results d0 @ results d1))"
      by (subst fetchPages.simps) simp
    then have "fetchPages remote (results d0) (Some u1) (Suc 0) = ([u1], Inr (results d0 @ results d1))"
      using that by (subst fetchPages.simps) simp
    then show "fetchPages remote [] (Some first_url) 0 = ([first_url, u1], Inr (results d0 @ results d1))"
      using that by (subst fetchPages.simps) (simp add: first_url_def)
  qed
  have g: "\<forall>k d u. k < length ?log \<longrightarrow> remote k (?log ! k) = Inr d \<longrightarrow>
         next_cursor d = Some u \<longrightarrow> u \<noteq> [] \<longrightarrow> k < 2 \<longrightarrow> Suc k < length ?log"
  proof (intro allI impI)
    fix k d u
    assume h: "k < length ?log" "remote k (?log ! k) = Inr d" "next_cursor d = Some u" "u \<noteq> []" "k < 2"
    from h(5) have "Suc (0 + k) < 3" by simp
    with S h show "Suc k < length ?log" by (metis add_0)
  qed
  have h: "\<forall>k e. k < length ?log \<longrightarrow> remote k (?log ! k) = Inl e \<longrightarrow> length ?log = Suc k"
    using S by simp
  have i: "\<forall>k d. k < length ?log \<longrightarrow> remote k (?log ! k) = Inr d \<longrightarrow>
         next_cursor d = Some [] \<longrightarrow> length ?log = Suc k"
    using S by simp
  have j: "remote 0 first_url = Inr d0 \<and> next_cursor d0 = Some u1 \<and> u1 \<noteq> []
        \<and> remote 1 u1 = Inr d1 \<and> next_cursor d1 = Some u2 \<and> u2 \<noteq> []
        \<and> remote 2 u2 = Inr d2 \<longrightarrow>
        fetchPages remote [] (Some first_url) 0
          = ([first_url, u1, u2], Inr (results d0 @ results d1 @ results d2))"
    using three_pages[of remote d0 u1 d1 u2 d2] by simp
  show ?thesis unfolding Let_def
    by (intro conjI a b c d e f g h i j)
qed

theorem fetch_loop_pages_witness:
  "fetchPages two_pages [] (Some first_url) 0 = ([first_url, page2_url], Inr [walden, moby_dick])
   \<and> length (fst (fetchPages two_pages [] (Some first_url) 0)) \<le> 3
   \<and> fetchPages endless_pages [] (Some first_url) 0
       = ([first_url, page2_url, page2_url], Inr [walden, walden, walden])"
proof -
  let ?d0 = "\<lparr>results = [walden], next_cursor = Some page2_url\<rparr>"
  let ?d1 = "\<lparr>results = [moby_dick], next_cursor = None\<rparr>"
  have h: "two_pages 0 first_url = Inr ?d0 \<and> next_cursor ?d0 = Some page2_url \<and> page2_url \<noteq> []
      \<and> two_pages 1 page2_url = Inr ?d1 \<and> next_cursor ?d1 = None"
    by (simp add: two_pages_def page2_url_def first_url_def)
  note T = fetch_loop_pages[of two_pages ?d0 page2_url ?d1, unfolded Let_def]
  note scenario = T[THEN conjunct2, THEN conjunct2, THEN conjunct2, THEN conjunct2, THEN conjunct2,
      THEN conjunct1]
  note bound = T[THEN conjunct2, THEN conjunct1]
  from scenario[THEN mp, OF h] have "fetchPages two_pages [] (Some first_url) 0
      = ([first_url, page2_url], Inr (results ?d0 @ results ?d1))" .
  then have two: "fetchPages two_pages [] (Some first_url) 0
      = ([first_url, page2_url], Inr [walden, moby_dick])" by simp
  have h3: "endless_pages 0 first_url = Inr ?d0 \<and> next_cursor ?d0 = Some page2_url \<and> page2_url \<noteq> []
      \<and> endless_pages 1 page2_url = Inr ?d0 \<and> next_cursor ?d0 = Some page2_url \<and> page2_url \<noteq> []
      \<and> endless_pages 2 page2_url = Inr ?d0"
    by (simp add: endless_pages_def page2_url_def)
  note E = fetch_loop_pages[of endless_pages ?d0 page2_url ?d0 page2_url ?d0, unfolded Let_def]
  note three = E[THEN conjunct2, THEN conjunct2, THEN conjunct2, THEN conjunct2, THEN conjunct2,
      THEN conjunct2, THEN conjunct2, THEN conjunct2, THEN conjunct2]
  from three[THEN mp, OF h3] have "fetchPages endless_pages [] (Some first_url) 0
      = ([first_url, page2_url, page2_url], Inr (results ?d0 @ results ?d0 @ results ?d0))" .
  then have end3: "fetchPages endless_pages [] (Some first_url) 0
      = ([first_url, page2_url, page2_url], Inr [walden, walden, walden])" by simp
  show ?thesis by (intro conjI two bound end3)
qed

section \<open>The index of words\<close>

subsection \<open>The nested iterations as one pass over the occurrences\<close>

lemma add_all_append: "add_all (xs @ ys) m = add_all ys (add_all xs m)"
  by (induction xs arbitrary: m) auto

lemma index_words_add_all:
  "index_words b ws m = add_all (map (\<lambda>w. (w, b)) (filter (\<lambda>w. w \<noteq> []) (map normalize_word ws))) m"
  by (induction ws arbitrary: m) (simp_all add: Let_def)

lemma index_subjects_add_all:
  "index_subjects b ss m = add_all (map (\<lambda>w. (w, b)) (concat (map tokens ss))) m"
  by (induction ss arbitrary: m) (simp_all add: index_words_add_all tokens_def add_all_append)

lemma index_books_add_all:
  "list_all (\<lambda>b. subjects b \<noteq> None) bs \<Longrightarrow> index_books bs m = Inr (add_all (occurrences bs) m)"
  by (induction bs arbitrary: m)
     (auto simp: occurrences_def index_subjects_add_all add_all_append subjects_of_def)

lemma index_books_Inr:
  "index_books bs m = Inr m' \<Longrightarrow> list_all (\<lambda>b. subjects b \<noteq> None) bs"
  by (induction bs arbitrary: m) (auto split: option.splits)

subsection \<open>The map\<close>

lemma map_of_map_set:
  "map_of (map_set k v m) k' = (if k' = k then Some v else map_of m k')"
  by (induction m) auto

lemma keys_map_set:
  "map fst (map_set k v m) = (if k \<in> fst ` set m then map fst m else map fst m @ [k])"
  by (induction m) (auto simp: rev_image_eqI)

lemma map_of_map_modify:
  "map_of (map_modify k f m) k' = (if k' = k then map_option f (map_of m k) else map_of m k')"
  by (induction m) auto

lemma keys_map_modify: "map fst (map_modify k f m) = map fst m"
  by (induction m) auto

lemma keys_add_word:
  "map fst (add_word b w m) = (if w \<in> fst ` set m then map fst m else map fst m @ [w])"
  by (auto simp: add_word_def Let_def keys_map_modify keys_map_set map_has_def map_of_eq_None_iff)

lemma set_keys_add_word: "fst ` set (add_word b w m) = insert w (fst ` set m)"
proof -
  have "set (map fst (add_word b w m)) = insert w (fst ` set m)"
    by (simp only: keys_add_word) auto
  then show ?thesis by simp
qed

lemma map_of_add_word:
  "map_of (add_word b w m) w' =
     (if w' = w
      then Some \<lparr>count = count (entry_of m w) + 1, entry_books = entry_books (entry_of m w) @ [b]\<rparr>
      else map_of m w')"
  by (auto simp: add_word_def Let_def map_of_map_modify map_of_map_set map_has_def entry_of_def
      split: option.splits)

lemma entry_of_add_word:
  "entry_of (add_word b w m) w' =
     (if w' = w
      then \<lparr>count = count (entry_of m w) + 1, entry_books = entry_books (entry_of m w) @ [b]\<rparr>
      else entry_of m w')"
  by (simp add: entry_of_def[of "add_word b w m"] map_of_add_word) (simp add: entry_of_def)

lemma entry_of_add_all:
  "entry_of (add_all occ m) w =
     \<lparr>count = count (entry_of m w) + length (books_of_word w occ),
      entry_books = entry_books (entry_of m w) @ books_of_word w occ\<rparr>"
proof (induction occ arbitrary: m)
  case Nil
  then show ?case by (simp add: books_of_word_def)
next
  case (Cons p occ)
  obtain w' b where p: "p = (w', b)" by (cases p)
  show ?case
    by (simp add: p Cons.IH entry_of_add_word books_of_word_def)
qed

lemma keys_add_all:
  "fst ` set (add_all occ m) = fst ` set m \<union> fst ` set occ"
proof (induction occ arbitrary: m)
  case Nil
  then show ?case by simp
next
  case (Cons p occ)
  obtain w' b where p: "p = (w', b)" by (cases p)
  show ?case by (simp add: p Cons.IH set_keys_add_word)
qed

lemma distinct_add_all:
  "distinct (map fst m) \<Longrightarrow> distinct (map fst (add_all occ m))"
proof (induction occ arbitrary: m)
  case Nil
  then show ?case by simp
next
  case (Cons p occ)
  obtain w' b where p: "p = (w', b)" by (cases p)
  have "distinct (map fst (add_word b w' m))" using Cons.prems by (simp add: keys_add_word)
  from Cons.IH[OF this] show ?case by (simp add: p)
qed

lemma map_of_add_all_empty:
  "map_of (add_all occ []) w =
     (if books_of_word w occ = [] then None
      else Some \<lparr>count = length (books_of_word w occ), entry_books = books_of_word w occ\<rparr>)"
proof (cases "books_of_word w occ = []")
  case True
  then have "w \<notin> fst ` set occ"
    by (auto simp: books_of_word_def filter_empty_conv)
  then have "w \<notin> fst ` set (add_all occ [])" by (simp add: keys_add_all)
  then have "map_of (add_all occ []) w = None" by (simp add: map_of_eq_None_iff)
  with True show ?thesis by simp
next
  case False
  then have "w \<in> fst ` set occ"
    by (auto simp: books_of_word_def filter_empty_conv)
  then have "w \<in> fst ` set (add_all occ [])" by (simp add: keys_add_all)
  then obtain e where e: "map_of (add_all occ []) w = Some e"
    by (cases "map_of (add_all occ []) w") (auto simp: map_of_eq_None_iff)
  then have "entry_of (add_all occ []) w = e" by (simp add: entry_of_def)
  then have "e = \<lparr>count = length (books_of_word w occ), entry_books = books_of_word w occ\<rparr>"
    by (simp add: entry_of_add_all) (simp add: entry_of_def)
  with e False show ?thesis by simp
qed

subsection \<open>Splitting and normalising\<close>

lemma split_js_nonempty: "split_js sep s \<noteq> []"
  by (induction s) (auto split: list.splits)

lemma split_js_join: "join [sep] (split_js sep s) = s"
proof (induction s)
  case Nil
  then show ?case by simp
next
  case (Cons c s)
  obtain p ps where sp: "split_js sep s = p # ps"
    using split_js_nonempty[of sep s] by (cases "split_js sep s") auto
  show ?case
  proof (cases "c = sep")
    case True
    with Cons sp show ?thesis by simp
  next
    case False
    with Cons sp show ?thesis by (cases ps) auto
  qed
qed

lemma split_js_no_sep: "list_all (\<lambda>p. sep \<notin> set p) (split_js sep s)"
  by (induction s) (auto split: list.splits)

lemma length_split_js: "length (split_js sep s) = Suc (count_list s sep)"
  by (induction s) (auto split: list.splits)

lemma of_char_lower_char:
  "(of_char (lower_char c) :: nat) =
     (if 65 \<le> (of_char c :: nat) \<and> (of_char c :: nat) \<le> 90 then of_char c + 32 else of_char c)"
  by (simp add: lower_char_def Let_def)

lemma lower_char_idem: "lower_char (lower_char c) = lower_char c"
proof (cases "65 \<le> (of_char c :: nat) \<and> (of_char c :: nat) \<le> 90")
  case True
  then have "\<not> ((of_char (lower_char c) :: nat) \<le> 90)"
    by (simp add: of_char_lower_char)
  then show ?thesis
    by (simp add: lower_char_def[of "lower_char c"] Let_def)
next
  case False
  then have "lower_char c = c" by (auto simp: lower_char_def Let_def)
  then show ?thesis by simp
qed

lemma is_letter_lower_char: "is_letter (lower_char c) = is_letter c"
  by (auto simp add: is_letter_def of_char_lower_char Let_def)

lemma normalize_word_idem: "normalize_word (normalize_word w) = normalize_word w"
  by (simp add: normalize_word_def filter_map comp_def is_letter_lower_char lower_char_idem)

lemma tokens_lowercase:
  "list_all (\<lambda>t. t \<noteq> [] \<and> list_all is_lower t) (tokens subject)"
proof -
  have "is_letter c \<Longrightarrow> is_lower (lower_char c)" for c
    by (auto simp: is_letter_def is_lower_def of_char_lower_char Let_def)
  then have "list_all is_lower (normalize_word p)" for p
    by (simp add: normalize_word_def list_all_iff)
  then show ?thesis by (auto simp: tokens_def list_all_iff)
qed

text \<open>
  Claim C4, as the script has it. A subject is cut at every space, and only there: the
  pieces hold no space, and joined by spaces they give the subject back. Every piece is
  reduced to its letters a to z and A to Z, in lower case, and the pieces that become empty
  are dropped. Every token that is left adds 1 to the count of its word and appends the
  book to the word's list. So, when every book has its subjects, the index holds for every
  word the books of its occurrences, in order and as often as they occur, and their number
  as its count.
\<close>

theorem index_counts_every_token:
  assumes "list_all (\<lambda>b. subjects b \<noteq> None) bs"
  shows "join '' '' (split_js CHR '' '' subject) = subject
       \<and> list_all (\<lambda>p. CHR '' '' \<notin> set p) (split_js CHR '' '' subject)
       \<and> list_all (\<lambda>t. t \<noteq> [] \<and> list_all is_lower t) (tokens subject)
       \<and> index_subjects b [subject] m = add_all (map (\<lambda>w. (w, b)) (tokens subject)) m
       \<and> map_of (add_word b w m) w' =
           (if w' = w
            then Some \<lparr>count = count (entry_of m w) + 1,
                       entry_books = entry_books (entry_of m w) @ [b]\<rparr>
            else map_of m w')
       \<and> (\<exists>m'. index_books bs [] = Inr m' \<and> distinct (map fst m')
              \<and> (\<forall>t. map_of m' t =
                    (if books_of_word t (occurrences bs) = [] then None
                     else Some \<lparr>count = length (books_of_word t (occurrences bs)),
                                entry_books = books_of_word t (occurrences bs)\<rparr>)))"
proof -
  have a: "join '' '' (split_js CHR '' '' subject) = subject"
    using split_js_join[of "CHR '' ''" subject] by simp
  have b: "index_subjects b [subject] m = add_all (map (\<lambda>w. (w, b)) (tokens subject)) m"
    by (simp add: index_subjects_add_all)
  have c: "index_books bs [] = Inr (add_all (occurrences bs) [])"
    by (rule index_books_add_all[OF assms])
  have d: "distinct (map fst (add_all (occurrences bs) []))"
    by (rule distinct_add_all) simp
  have e: "\<exists>m'. index_books bs [] = Inr m' \<and> distinct (map fst m')
              \<and> (\<forall>t. map_of m' t =
                    (if books_of_word t (occurrences bs) = [] then None
                     else Some \<lparr>count = length (books_of_word t (occurrences bs)),
                                entry_books = books_of_word t (occurrences bs)\<rparr>))"
    by (intro exI[of _ "add_all (occurrences bs) []"] conjI allI c d map_of_add_all_empty)
  show ?thesis
    by (intro conjI a b e split_js_no_sep tokens_lowercase map_of_add_word)
qed

theorem index_counts_every_token_witness:
  "list_all (\<lambda>b. subjects b \<noteq> None) [walden, moby_dick]
   \<and> (\<exists>m'. index_books [walden, moby_dick] [] = Inr m'
          \<and> map_of m' ''history'' = Some \<lparr>count = 2, entry_books = [walden, walden]\<rparr>
          \<and> map_of m' ''walden'' = None)"
proof -
  have h: "list_all (\<lambda>b. subjects b \<noteq> None) [walden, moby_dick]"
    by (simp add: walden_def moby_dick_def)
  have e1: "books_of_word ''history'' (occurrences [walden, moby_dick]) = [walden, walden]"
    by code_simp
  have e2: "books_of_word ''walden'' (occurrences [walden, moby_dick]) = []"
    by code_simp
  note T = index_counts_every_token[OF h, of "''History''" walden "[]" "''history''" "''history''"]
  note last = T[THEN conjunct2, THEN conjunct2, THEN conjunct2, THEN conjunct2, THEN conjunct2]
  from last obtain m' where m: "index_books [walden, moby_dick] [] = Inr m'"
    and all: "\<forall>t. map_of m' t =
        (if books_of_word t (occurrences [walden, moby_dick]) = [] then None
         else Some \<lparr>count = length (books_of_word t (occurrences [walden, moby_dick])),
                    entry_books = books_of_word t (occurrences [walden, moby_dick])\<rparr>)"
    by blast
  from all have "map_of m' ''history'' = Some \<lparr>count = 2, entry_books = [walden, walden]\<rparr>"
    by (simp only: e1) simp
  moreover from all have "map_of m' ''walden'' = None"
    by (simp only: e2) simp
  ultimately show ?thesis using h m by (intro conjI exI[of _ m'])
qed

text \<open>
  The claim says that the subject is split on whitespace. A tab is whitespace and does not
  split: the subject \<open>Science<TAB>fiction\<close> gives the single word \<open>sciencefiction\<close>, where
  splitting on whitespace gives \<open>science\<close> and \<open>fiction\<close>.
\<close>

theorem tab_is_no_separator:
  "map fst (index_subjects walden [tab_subject] []) = [''sciencefiction'']
   \<and> spec_tokens tab_subject = [''science'', ''fiction'']
   \<and> tokens tab_subject \<noteq> spec_tokens tab_subject"
  by code_simp

subsection \<open>Books without subjects\<close>

lemma index_books_skip_empty:
  "subjects b = Some [] \<Longrightarrow> index_books (xs @ b # ys) m = index_books (xs @ ys) m"
  by (induction xs arbitrary: m) (auto split: option.splits)

text \<open>
  Claim C5, for the empty list. A book whose subjects are the empty array adds nothing to
  the index and raises nothing: with or without it, the pass gives the same result.
\<close>

theorem empty_subjects_contribute_nothing:
  "subjects b = Some [] \<Longrightarrow> index_books (xs @ b # ys) m = index_books (xs @ ys) m"
  by (rule index_books_skip_empty)

theorem empty_subjects_contribute_nothing_witness:
  "subjects unclassified = Some []
   \<and> index_books ([walden] @ unclassified # [moby_dick]) [] = index_books ([walden] @ [moby_dick]) []"
proof -
  have h: "subjects unclassified = Some []" by (simp add: unclassified_def)
  from h empty_subjects_contribute_nothing[OF h] show ?thesis by (intro conjI)
qed

text \<open>
  The claim includes the book whose subjects are missing. On such a book
  \<^verbatim>\<open>subjects.forEach\<close> throws; the pass ends there, \<^verbatim>\<open>loadData\<close> catches the exception,
  and no index and no word cloud are made, also for the books that have subjects.
\<close>

theorem missing_subjects_abort_indexing:
  "index_books [walden, untagged, moby_dick] [] = Inl TypeError
   \<and> index_books [walden, moby_dick] [] \<noteq> Inl TypeError
   \<and> wordsData (loadData untagged_page init) = []
   \<and> wordGroup (loadData untagged_page init) = None"
  by code_simp

subsection \<open>Frequency and book list\<close>

lemma map_modify_twice: "map_modify k f (map_modify k g m) = map_modify k (\<lambda>e. f (g e)) m"
  by (induction m) auto

lemma list_all_map_modify:
  "list_all Q m \<Longrightarrow> (\<And>e. Q (k, e) \<Longrightarrow> Q (k, f e)) \<Longrightarrow> list_all Q (map_modify k f m)"
  by (induction m) auto

lemma list_all_map_set: "list_all Q m \<Longrightarrow> Q (k, v) \<Longrightarrow> list_all Q (map_set k v m)"
  by (induction m) auto

lemma tally_ok_add_word: "tally_ok m \<Longrightarrow> tally_ok (add_word b w m)"
  unfolding tally_ok_def add_word_def Let_def map_modify_twice
  by (intro list_all_map_modify) (auto intro: list_all_map_set)

lemma tally_ok_add_all: "tally_ok m \<Longrightarrow> tally_ok (add_all occ m)"
  by (induction occ arbitrary: m) (auto simp: tally_ok_add_word)

text \<open>
  Claim C9. When the indexing pass has completed, the frequency of every word entry is the
  length of its list of books.
\<close>

theorem frequency_is_number_of_books:
  assumes "index_books bs [] = Inr m"
  shows "list_all (\<lambda>wd. frequency wd = length (books wd)) (toWordsData m)"
proof -
  have "m = add_all (occurrences bs) []"
    using index_books_add_all[OF index_books_Inr[OF assms], of "[]"] assms by simp
  moreover have "tally_ok []" by (simp add: tally_ok_def)
  ultimately have "tally_ok m" by (simp add: tally_ok_add_all)
  then show ?thesis
    by (simp add: tally_ok_def toWordsData_def list_all_iff split_beta)
qed

theorem frequency_is_number_of_books_witness:
  "\<exists>m. index_books [walden, moby_dick] [] = Inr m
      \<and> list_all (\<lambda>wd. frequency wd = length (books wd)) (toWordsData m)
      \<and> map word_text (toWordsData m) = [''natural'', ''history'', ''essays'', ''whaling'', ''fiction'']
      \<and> map frequency (toWordsData m) = [1, 2, 1, 1, 1]"
proof -
  have h: "list_all (\<lambda>b. subjects b \<noteq> None) [walden, moby_dick]"
    by (simp add: walden_def moby_dick_def)
  have m: "index_books [walden, moby_dick] [] = Inr (add_all (occurrences [walden, moby_dick]) [])"
    by (rule index_books_add_all[OF h])
  have e1: "map word_text (toWordsData (add_all (occurrences [walden, moby_dick]) []))
      = [''natural'', ''history'', ''essays'', ''whaling'', ''fiction'']"
    by code_simp
  have e2: "map frequency (toWordsData (add_all (occurrences [walden, moby_dick]) [])) = [1, 2, 1, 1, 1]"
    by code_simp
  from m frequency_is_number_of_books[OF m] e1 e2 show ?thesis
    by (intro exI[of _ "add_all (occurrences [walden, moby_dick]) []"] conjI)
qed

lemma loaded_frequencies:
  "list_all (\<lambda>wd. frequency wd = length (books wd)) (wordsData (loadData remote init))"
proof (cases "snd (fetchPages remote [] (Some first_url) 0)")
  case (Inl e)
  then show ?thesis by (simp add: loadData_def init_def)
next
  case (Inr allBooks)
  show ?thesis
  proof (cases "index_books allBooks []")
    case (Inl e)
    with Inr show ?thesis by (simp add: loadData_def init_def)
  next
    case r: (Inr m)
    have "m = add_all (occurrences allBooks) []"
      using index_books_add_all[OF index_books_Inr[OF r], of "[]"] r by simp
    moreover have "tally_ok []" by (simp add: tally_ok_def)
    ultimately have "tally_ok m" by (simp add: tally_ok_add_all)
    then have "list_all (\<lambda>wd. frequency wd = length (books wd)) (toWordsData m)"
      by (simp add: tally_ok_def toWordsData_def list_all_iff split_beta)
    with Inr r show ?thesis by (simp add: loadData_def createWordCloud_def)
  qed
qed

end
